theory Spec2Isabelle
  imports Complex_Main "HOL-Library.Log_Nat"
begin

section \<open>The MIDI clock generators of LinkBridge\<close>

text \<open>
  Two scripts are embedded: \<^verbatim>\<open>clock.py\<close> (fixed tempo) and
  \<^verbatim>\<open>debugAutomaticClock.py\<close> (a tempo change every ten seconds). Both have a
  function \<^verbatim>\<open>calculate_tick_interval\<close> and a function \<^verbatim>\<open>main\<close>; the
  definitions taken from \<^verbatim>\<open>clock.py\<close> carry the prefix \<open>clock_\<close>, those taken
  from \<^verbatim>\<open>debugAutomaticClock.py\<close> the prefix \<open>auto_\<close>. Lines 103-126 of
  \<^verbatim>\<open>clock.py\<close> and lines 134-157 of \<^verbatim>\<open>debugAutomaticClock.py\<close> are the same
  text; they are embedded once, over the fields both loops share.

  Conventions of the embedding.
  \<^item> In the loops, Python floats (times, intervals) are exact rationals: \<open>+\<close>,
    \<open>-\<close>, \<open>/\<close> and the comparisons are those of \<^typ>\<open>rat\<close>, and rounding is left
    out. \<^verbatim>\<open>calculate_tick_interval\<close> is embedded twice: in exact arithmetic, for
    the loops, and in binary64 arithmetic (every operation rounded to the nearest double,
    ties to even), for the statement about the value it returns.
  \<^item> Python integers are \<^typ>\<open>int\<close>; the counters, which start at zero and are only
    incremented, are \<^typ>\<open>nat\<close>.
  \<^item> What the program reads from its surroundings (the shutdown flag, the monotonic
    clock, the return codes of the C library) is an input: one record for the start-up,
    one record per pass of the \<^verbatim>\<open>while\<close> loop.
  \<^item> What the program does to its surroundings (library calls, sleeps, prints) is the
    list of events it returns, in program order.
  \<^item> A Python exception is a value of \<open>py_error\<close>.
  \<^item> The loop may run forever. It is run on a finite list of per-pass inputs; when the
    list ends before the loop has left, the result is \<open>Still_running\<close> and
    \<open>main\<close> has no result (\<open>None\<close>).
\<close>

subsection \<open>Constants (lines 10-11 of both files)\<close>

definition BPM :: int where
  "BPM = 120"

definition PPQN :: nat where
  "PPQN = 24"

subsection \<open>Errors, events, inputs\<close>

datatype py_error = ZeroDivisionError | IndexError | OverflowError

datatype message =
    Msg_lib_not_found
  | Msg_load_error
  | Msg_banner
  | Msg_initializing
  | Msg_init_failed
  | Msg_tempo_warning int
  | Msg_ids int int int
  | Msg_start_failed
  | Msg_tick_interval rat
  | Msg_tempo_changed int
  | Msg_clock_failed
  | Msg_beat nat nat nat
  | Msg_loop_error py_error
  | Msg_stopping
  | Msg_totals nat nat
  | Msg_shutdown_complete

datatype event =
    Midi_init
  | Midi_set_tempo int
  | Midi_get_ids
  | Midi_send_start
  | Midi_send_clock
  | Midi_get_tick_count
  | Midi_send_stop
  | Midi_cleanup
  | Sleep rat
  | Print message

text \<open>
  The answers of the surroundings during one pass of the loop: the value of the global
  \<^verbatim>\<open>running\<close> at the \<^verbatim>\<open>while\<close> test, the three readings of
  \<^verbatim>\<open>time.monotonic()\<close> (at the tempo check, in the computation of
  \<^verbatim>\<open>sleep_time\<close>, and at the resynchronisation), and the results of
  \<^verbatim>\<open>midi_set_tempo\<close>, \<^verbatim>\<open>midi_send_clock\<close> and \<^verbatim>\<open>midi_get_tick_count\<close>.
  An answer is used only if the pass makes the call.
\<close>

record cycle_input =
  running_flag :: bool
  now_check :: rat
  set_tempo_rc :: int
  send_clock_rc :: int
  queue_tick :: nat
  now_slack :: rat
  now_resync :: rat

text \<open>
  The answers during start-up: whether the library file exists and loads, the results
  of \<^verbatim>\<open>midi_init\<close>, of the first \<^verbatim>\<open>midi_set_tempo\<close>, of the three id getters and
  of \<^verbatim>\<open>midi_send_start\<close>, and the readings of \<^verbatim>\<open>time.monotonic()\<close> that seed
  \<^verbatim>\<open>next_change_time\<close> and \<^verbatim>\<open>next_tick_time\<close>.
\<close>

record startup_input =
  lib_exists :: bool
  lib_loads :: bool
  init_rc :: int
  init_tempo_rc :: int
  client_id :: int
  port_id :: int
  queue_id :: int
  start_rc :: int
  t_sched :: rat
  t_start :: rat

subsection \<open>The state of the loops\<close>

text \<open>The local variables of \<^verbatim>\<open>main\<close> in \<^verbatim>\<open>clock.py\<close> that the loop uses.\<close>

record tick_state =
  tick_interval :: rat
  next_tick_time :: rat
  tick_count :: nat
  beat_count :: nat

text \<open>\<^verbatim>\<open>debugAutomaticClock.py\<close> has three more.\<close>

record tempo_state = tick_state +
  current_bpm :: int
  seq_index :: nat
  next_change_time :: rat

datatype 'st cycle_result = Continue 'st | Break 'st | Raised py_error 'st

datatype 'st loop_outcome = Still_running 'st | Loop_exited 'st

subsection \<open>\<^verbatim>\<open>calculate_tick_interval\<close>\<close>

text \<open>
  \<^verbatim>\<open>debugAutomaticClock.py\<close>, lines 22-25, in exact arithmetic. The division
  \<^verbatim>\<open>1.0 / ticks_per_second\<close> raises when the divisor is zero.
\<close>

definition auto_calculate_tick_interval :: "int \<Rightarrow> py_error + rat" where
  "auto_calculate_tick_interval bpm =
     (let ticks_per_second = (of_int bpm / 60) * of_nat PPQN
      in if ticks_per_second = 0 then Inl ZeroDivisionError
         else Inr (1 / ticks_per_second))"

text \<open>
  \<^verbatim>\<open>clock.py\<close>, lines 22-26, in exact arithmetic: no parameter, the global
  \<^verbatim>\<open>BPM\<close>.
\<close>

definition clock_calculate_tick_interval :: "py_error + rat" where
  "clock_calculate_tick_interval =
     (let ticks_per_second = (of_int BPM / 60) * of_nat PPQN
      in if ticks_per_second = 0 then Inl ZeroDivisionError
         else Inr (1 / ticks_per_second))"

subsection \<open>\<^verbatim>\<open>calculate_tick_interval\<close> in binary64 arithmetic\<close>

text \<open>
  A Python float is an IEEE 754 binary64 number: a rational that has the form
  \<open>n * 2 ^ k\<close> with \<open>\<bar>n\<bar> < 2 ^ 53\<close> and \<open>- 1074 \<le> k \<le> 971\<close>, an infinity, or
  not a number. The two zeros are one value here (they differ in nothing the function
  does: a division by either raises).
\<close>

datatype pyfloat = Finite rat | PosInf | NegInf | NaN

text \<open>The integer nearest to \<open>m\<close>; of two equally near ones the even one.\<close>

definition round_half_even :: "rat \<Rightarrow> int" where
  "round_half_even m =
     (let n = \<lfloor>m\<rfloor>; r = m - of_int n
      in if r < 1 / 2 then n else if 1 / 2 < r then n + 1 else if even n then n else n + 1)"

text \<open>
  For \<open>a > 0\<close>: the exponent \<open>e\<close> with \<open>2 ^ e \<le> a < 2 ^ (e + 1)\<close>, found from the
  bit lengths of numerator and denominator.
\<close>

definition binade :: "rat \<Rightarrow> int" where
  "binade a =
     (let d = bitlen (fst (quotient_of a)) - bitlen (snd (quotient_of a))
      in if 2 powi d \<le> a then d else d - 1)"

text \<open>
  Rounding to the nearest double, ties to even: 53 significant bits, the spacing never
  below \<open>2 ^ - 1074\<close> (subnormal numbers), and an infinity when the rounded magnitude
  reaches \<open>2 ^ 1024\<close>.
\<close>

definition round_to_double :: "rat \<Rightarrow> pyfloat" where
  "round_to_double x =
     (if x = 0 then Finite 0
      else let a = \<bar>x\<bar>;
               k = max (binade a - 52) (- 1074);
               r = of_int (round_half_even (a / 2 powi k)) * 2 powi k
           in if 2 powi 1024 \<le> r then (if 0 < x then PosInf else NegInf)
              else Finite (if 0 < x then r else - r))"

text \<open>The sign of a float: \<open>- 1\<close>, 0 or 1; 0 for not a number.\<close>

fun float_sign :: "pyfloat \<Rightarrow> int" where
  "float_sign (Finite a) = (if a < 0 then - 1 else if a = 0 then 0 else 1)"
| "float_sign PosInf = 1"
| "float_sign NegInf = - 1"
| "float_sign NaN = 0"

text \<open>
  The conversion of a Python integer to a float, which
  \<^verbatim>\<open>bpm / 60.0\<close> performs on \<^verbatim>\<open>bpm\<close>: correctly rounded;
  \<^verbatim>\<open>OverflowError\<close> when the result would not be finite.
\<close>

definition float_of_int :: "int \<Rightarrow> py_error + pyfloat" where
  "float_of_int i =
     (case round_to_double (of_int i) of
        Finite r \<Rightarrow> Inr (Finite r)
      | _ \<Rightarrow> Inl OverflowError)"

text \<open>
  Multiplication and true division of floats: the exact result, rounded. A product that
  overflows is an infinity (Python raises nothing); a division by zero raises
  \<^verbatim>\<open>ZeroDivisionError\<close> whatever the dividend is.
\<close>

fun float_mul :: "pyfloat \<Rightarrow> pyfloat \<Rightarrow> pyfloat" where
  "float_mul (Finite a) (Finite b) = round_to_double (a * b)"
| "float_mul NaN y = NaN"
| "float_mul x NaN = NaN"
| "float_mul x y =
     (if float_sign x * float_sign y = 0 then NaN
      else if 0 < float_sign x * float_sign y then PosInf else NegInf)"

fun float_truediv :: "pyfloat \<Rightarrow> pyfloat \<Rightarrow> py_error + pyfloat" where
  "float_truediv x (Finite b) =
     (if b = 0 then Inl ZeroDivisionError
      else case x of
             Finite a \<Rightarrow> Inr (round_to_double (a / b))
           | NaN \<Rightarrow> Inr NaN
           | _ \<Rightarrow> Inr (if 0 < float_sign x * float_sign (Finite b) then PosInf else NegInf))"
| "float_truediv x NaN = Inr NaN"
| "float_truediv (Finite a) y = Inr (Finite 0)"
| "float_truediv x y = Inr NaN"

text \<open>
  \<^verbatim>\<open>debugAutomaticClock.py\<close>, lines 22-25:
  \<^verbatim>\<open>ticks_per_second = (bpm / 60.0) * PPQN\<close>, \<^verbatim>\<open>return 1.0 / ticks_per_second\<close>.
  The integer \<^verbatim>\<open>PPQN\<close> = 24 is converted exactly.
\<close>

definition auto_calculate_tick_interval_double :: "int \<Rightarrow> py_error + pyfloat" where
  "auto_calculate_tick_interval_double bpm =
     (case float_of_int bpm of
        Inl e \<Rightarrow> Inl e
      | Inr b \<Rightarrow>
          (case float_truediv b (Finite 60) of
             Inl e \<Rightarrow> Inl e
           | Inr q \<Rightarrow>
               (let ticks_per_second = float_mul q (Finite (of_nat PPQN))
                in float_truediv (Finite 1) ticks_per_second)))"

text \<open>\<^verbatim>\<open>clock.py\<close>, lines 22-26: the same with the global \<^verbatim>\<open>BPM\<close>.\<close>

definition clock_calculate_tick_interval_double :: "py_error + pyfloat" where
  "clock_calculate_tick_interval_double =
     (case float_of_int BPM of
        Inl e \<Rightarrow> Inl e
      | Inr b \<Rightarrow>
          (case float_truediv b (Finite 60) of
             Inl e \<Rightarrow> Inl e
           | Inr q \<Rightarrow>
               (let ticks_per_second = float_mul q (Finite (of_nat PPQN))
                in float_truediv (Finite 1) ticks_per_second)))"

subsection \<open>The part of the loop body that both files share\<close>

text \<open>
  \<^verbatim>\<open>tick_count += 1\<close> and the status line every \<^verbatim>\<open>PPQN\<close> ticks
  (\<^verbatim>\<open>clock.py\<close> 108-114, \<^verbatim>\<open>debugAutomaticClock.py\<close> 139-145).
\<close>

definition count_tick ::
  "cycle_input \<Rightarrow> 'a tick_state_scheme \<Rightarrow> event list \<times> 'a tick_state_scheme" where
  "count_tick inp st =
     (let n = tick_count st + 1
      in if n mod PPQN = 0
         then ([Midi_get_tick_count, Print (Msg_beat (beat_count st + 1) n (queue_tick inp))],
               st\<lparr>tick_count := n, beat_count := beat_count st + 1\<rparr>)
         else ([], st\<lparr>tick_count := n\<rparr>))"

text \<open>
  \<^verbatim>\<open>next_tick_time += tick_interval\<close> (\<^verbatim>\<open>clock.py\<close> 117,
  \<^verbatim>\<open>debugAutomaticClock.py\<close> 148).
\<close>

definition advance_deadline :: "'a tick_state_scheme \<Rightarrow> 'a tick_state_scheme" where
  "advance_deadline st = st\<lparr>next_tick_time := next_tick_time st + tick_interval st\<rparr>"

text \<open>
  The sleep, or the resynchronisation when the loop is more than one interval late
  (\<^verbatim>\<open>clock.py\<close> 118-126, \<^verbatim>\<open>debugAutomaticClock.py\<close> 149-157).
\<close>

definition wait_or_resync ::
  "cycle_input \<Rightarrow> 'a tick_state_scheme \<Rightarrow> event list \<times> 'a tick_state_scheme" where
  "wait_or_resync inp st =
     (let sleep_time = next_tick_time st - now_slack inp
      in if sleep_time > 0 then ([Sleep sleep_time], st)
         else if sleep_time < - tick_interval st
         then ([], st\<lparr>next_tick_time := now_resync inp\<rparr>)
         else ([], st))"

text \<open>
  The absolute-time sleep as a whole (\<^verbatim>\<open>clock.py\<close> 116-126,
  \<^verbatim>\<open>debugAutomaticClock.py\<close> 147-157).
\<close>

definition sleep_until_next_tick ::
  "cycle_input \<Rightarrow> 'a tick_state_scheme \<Rightarrow> event list \<times> 'a tick_state_scheme" where
  "sleep_until_next_tick inp st = wait_or_resync inp (advance_deadline st)"

text \<open>
  Sending the clock message, then the two steps above
  (\<^verbatim>\<open>clock.py\<close> 103-126, \<^verbatim>\<open>debugAutomaticClock.py\<close> 134-157). A negative result
  of \<^verbatim>\<open>midi_send_clock\<close> leaves the loop by \<^verbatim>\<open>break\<close>.
\<close>

definition send_tick ::
  "cycle_input \<Rightarrow> 'a tick_state_scheme \<Rightarrow> event list \<times> 'a tick_state_scheme cycle_result" where
  "send_tick inp st =
     (if send_clock_rc inp < 0
      then ([Midi_send_clock, Print Msg_clock_failed], Break st)
      else case count_tick inp st of
             (evs1, st1) \<Rightarrow>
               (case sleep_until_next_tick inp st1 of
                  (evs2, st2) \<Rightarrow> (Midi_send_clock # evs1 @ evs2, Continue st2)))"

text \<open>
  The shutdown after the loop (\<^verbatim>\<open>clock.py\<close> 131-148, \<^verbatim>\<open>debugAutomaticClock.py\<close>
  162-179). The result of \<^verbatim>\<open>midi_send_stop\<close> is not looked at. The function
  returns the literal 0.
\<close>

definition shutdown :: "'a tick_state_scheme \<Rightarrow> event list \<times> int" where
  "shutdown st =
     ([Print Msg_stopping, Midi_send_stop, Sleep (1 / 10), Midi_cleanup,
       Print (Msg_totals (tick_count st) (beat_count st)), Print Msg_shutdown_complete],
      0)"

subsection \<open>\<^verbatim>\<open>clock.py\<close>\<close>

text \<open>The \<^verbatim>\<open>while running\<close> loop with its \<^verbatim>\<open>try\<close> (lines 101-129).\<close>

fun clock_main_loop ::
  "cycle_input list \<Rightarrow> tick_state \<Rightarrow> event list \<times> tick_state loop_outcome" where
  "clock_main_loop [] st = ([], Still_running st)"
| "clock_main_loop (inp # ins) st =
     (if \<not> running_flag inp then ([], Loop_exited st)
      else case send_tick inp st of
             (evs, Continue st') \<Rightarrow>
               (case clock_main_loop ins st' of (evs', r) \<Rightarrow> (evs @ evs', r))
           | (evs, Break st') \<Rightarrow> (evs, Loop_exited st')
           | (evs, Raised e st') \<Rightarrow> (evs @ [Print (Msg_loop_error e)], Loop_exited st'))"

datatype outcome = Return int | Uncaught py_error

text \<open>\<^verbatim>\<open>main\<close> (lines 28-148).\<close>

definition clock_main ::
  "startup_input \<Rightarrow> cycle_input list \<Rightarrow> (event list \<times> outcome) option" where
  "clock_main su ins =
     (if \<not> lib_exists su then Some ([Print Msg_lib_not_found], Return 1)
      else if \<not> lib_loads su then Some ([Print Msg_load_error], Return 1)
      else if init_rc su < 0
      then Some ([Print Msg_banner, Print Msg_initializing, Midi_init, Print Msg_init_failed],
                 Return 1)
      else if start_rc su < 0
      then Some ([Print Msg_banner, Print Msg_initializing, Midi_init, Midi_get_ids,
                  Print (Msg_ids (client_id su) (port_id su) (queue_id su)),
                  Midi_send_start, Print Msg_start_failed, Midi_cleanup],
                 Return 1)
      else case clock_calculate_tick_interval of
             Inl e \<Rightarrow>
               Some ([Print Msg_banner, Print Msg_initializing, Midi_init, Midi_get_ids,
                      Print (Msg_ids (client_id su) (port_id su) (queue_id su)),
                      Midi_send_start],
                     Uncaught e)
           | Inr iv \<Rightarrow>
               (case clock_main_loop ins
                       \<lparr>tick_interval = iv, next_tick_time = t_start su,
                        tick_count = 0, beat_count = 0\<rparr> of
                  (evs, Still_running st) \<Rightarrow> None
                | (evs, Loop_exited st) \<Rightarrow>
                    Some ([Print Msg_banner, Print Msg_initializing, Midi_init, Midi_get_ids,
                           Print (Msg_ids (client_id su) (port_id su) (queue_id su)),
                           Midi_send_start, Print (Msg_tick_interval iv)]
                          @ evs @ fst (shutdown st),
                          Return (snd (shutdown st)))))"

subsection \<open>\<^verbatim>\<open>debugAutomaticClock.py\<close>\<close>

text \<open>Line 100.\<close>

definition bpm_sequence :: "int list" where
  "bpm_sequence = [80, 140, 120]"

text \<open>
  What lines 129-132 do once a change was due, whether or not it was applied: the index
  moves on, the next change is ten seconds after the previous one, and
  \<^verbatim>\<open>next_tick_time\<close> becomes \<^verbatim>\<open>now\<close>.
\<close>

definition advance_schedule :: "rat \<Rightarrow> tempo_state \<Rightarrow> tempo_state" where
  "advance_schedule now st =
     st\<lparr>seq_index := (seq_index st + 1) mod length bpm_sequence,
        next_change_time := next_change_time st + 10,
        next_tick_time := now\<rparr>"

text \<open>
  The tempo check at the head of the loop body (lines 119-132). Reading
  \<^verbatim>\<open>bpm_sequence[seq_index]\<close> out of range raises \<^verbatim>\<open>IndexError\<close>; an exception
  leaves the state as the statements before it made it.
\<close>

definition tempo_change_check ::
  "cycle_input \<Rightarrow> tempo_state \<Rightarrow> event list \<times> tempo_state cycle_result" where
  "tempo_change_check inp st =
     (let now = now_check inp
      in if now \<ge> next_change_time st
         then if seq_index st < length bpm_sequence
              then let new_bpm = bpm_sequence ! seq_index st
                   in if set_tempo_rc inp < 0
                      then ([Midi_set_tempo new_bpm, Print (Msg_tempo_warning new_bpm)],
                            Continue (advance_schedule now st))
                      else case auto_calculate_tick_interval new_bpm of
                             Inl e \<Rightarrow>
                               ([Midi_set_tempo new_bpm],
                                Raised e (st\<lparr>current_bpm := new_bpm\<rparr>))
                           | Inr iv \<Rightarrow>
                               ([Midi_set_tempo new_bpm, Print (Msg_tempo_changed new_bpm)],
                                Continue
                                  (advance_schedule now
                                     (st\<lparr>tick_interval := iv, current_bpm := new_bpm\<rparr>)))
              else ([], Raised IndexError st)
         else ([], Continue st))"

text \<open>One pass of the loop body (lines 119-157).\<close>

definition auto_loop_body ::
  "cycle_input \<Rightarrow> tempo_state \<Rightarrow> event list \<times> tempo_state cycle_result" where
  "auto_loop_body inp st =
     (case tempo_change_check inp st of
        (evs, Continue st1) \<Rightarrow> (case send_tick inp st1 of (evs', r) \<Rightarrow> (evs @ evs', r))
      | (evs, Break st1) \<Rightarrow> (evs, Break st1)
      | (evs, Raised e st1) \<Rightarrow> (evs, Raised e st1))"

text \<open>The \<^verbatim>\<open>while running\<close> loop with its \<^verbatim>\<open>try\<close> (lines 117-160).\<close>

fun auto_main_loop ::
  "cycle_input list \<Rightarrow> tempo_state \<Rightarrow> event list \<times> tempo_state loop_outcome" where
  "auto_main_loop [] st = ([], Still_running st)"
| "auto_main_loop (inp # ins) st =
     (if \<not> running_flag inp then ([], Loop_exited st)
      else case auto_loop_body inp st of
             (evs, Continue st') \<Rightarrow>
               (case auto_main_loop ins st' of (evs', r) \<Rightarrow> (evs @ evs', r))
           | (evs, Break st') \<Rightarrow> (evs, Loop_exited st')
           | (evs, Raised e st') \<Rightarrow> (evs @ [Print (Msg_loop_error e)], Loop_exited st'))"

text \<open>The state when the loop is entered (lines 96-114).\<close>

definition auto_initial_state :: "startup_input \<Rightarrow> rat \<Rightarrow> tempo_state" where
  "auto_initial_state su iv =
     \<lparr>tick_interval = iv, next_tick_time = t_start su, tick_count = 0, beat_count = 0,
      current_bpm = BPM, seq_index = 0, next_change_time = t_sched su + 10\<rparr>"

text \<open>The events of lines 63-91 when \<^verbatim>\<open>midi_init\<close> succeeded.\<close>

definition auto_startup_events :: "startup_input \<Rightarrow> event list" where
  "auto_startup_events su =
     [Print Msg_banner, Print Msg_initializing, Midi_init, Midi_set_tempo BPM]
     @ (if init_tempo_rc su < 0 then [Print (Msg_tempo_warning BPM)] else [])
     @ [Midi_get_ids, Print (Msg_ids (client_id su) (port_id su) (queue_id su)),
        Midi_send_start]"

text \<open>\<^verbatim>\<open>main\<close> (lines 27-179).\<close>

definition auto_main ::
  "startup_input \<Rightarrow> cycle_input list \<Rightarrow> (event list \<times> outcome) option" where
  "auto_main su ins =
     (if \<not> lib_exists su then Some ([Print Msg_lib_not_found], Return 1)
      else if \<not> lib_loads su then Some ([Print Msg_load_error], Return 1)
      else if init_rc su < 0
      then Some ([Print Msg_banner, Print Msg_initializing, Midi_init, Print Msg_init_failed],
                 Return 1)
      else if start_rc su < 0
      then Some (auto_startup_events su @ [Print Msg_start_failed, Midi_cleanup], Return 1)
      else case auto_calculate_tick_interval BPM of
             Inl e \<Rightarrow> Some (auto_startup_events su, Uncaught e)
           | Inr iv \<Rightarrow>
               (case auto_main_loop ins (auto_initial_state su iv) of
                  (evs, Still_running st) \<Rightarrow> None
                | (evs, Loop_exited st) \<Rightarrow>
                    Some (auto_startup_events su @ [Print (Msg_tick_interval iv)]
                          @ evs @ fst (shutdown st),
                          Return (snd (shutdown st)))))"

subsection \<open>Reading a run\<close>

text \<open>The state a loop has reached, whether it has left or not.\<close>

fun loop_state :: "'st loop_outcome \<Rightarrow> 'st" where
  "loop_state (Still_running st) = st"
| "loop_state (Loop_exited st) = st"

text \<open>The sleeps of a run, in order.\<close>

fun sleeps :: "event list \<Rightarrow> rat list" where
  "sleeps [] = []"
| "sleeps (Sleep d # es) = d # sleeps es"
| "sleeps (e # es) = sleeps es"

text \<open>The tempos passed to \<^verbatim>\<open>midi_set_tempo\<close>, in order.\<close>

fun tempo_calls :: "event list \<Rightarrow> int list" where
  "tempo_calls [] = []"
| "tempo_calls (Midi_set_tempo b # es) = b # tempo_calls es"
| "tempo_calls (e # es) = tempo_calls es"

text \<open>The status lines of a run: beat number, tick count, queue tick.\<close>

fun beat_reports :: "event list \<Rightarrow> (nat \<times> nat \<times> nat) list" where
  "beat_reports [] = []"
| "beat_reports (Print (Msg_beat b n q) # es) = (b, n, q) # beat_reports es"
| "beat_reports (e # es) = beat_reports es"

text \<open>Whether a pass of the loop body goes on to the next statement, and its state.\<close>

fun continues :: "'st cycle_result \<Rightarrow> bool" where
  "continues (Continue st) = True"
| "continues (Break st) = False"
| "continues (Raised e st) = False"

fun result_state :: "'st cycle_result \<Rightarrow> 'st" where
  "result_state (Continue st) = st"
| "result_state (Break st) = st"
| "result_state (Raised e st) = st"

subsection \<open>Example inputs\<close>

text \<open>
  The state of \<^verbatim>\<open>debugAutomaticClock.py\<close> after 480 ticks at 120 BPM sent on time
  from 0 s on: the next tick and the first tempo change are both due at 10 s. The
  answers of the next pass, which wakes up one millisecond late, and in which
  \<^verbatim>\<open>midi_set_tempo\<close> fails, respectively succeeds.
\<close>

definition failed_change_input :: cycle_input where
  "failed_change_input = \<lparr>running_flag = True, now_check = 10001 / 1000, set_tempo_rc = - 1,
     send_clock_rc = 0, queue_tick = 0, now_slack = 10001 / 1000, now_resync = 10001 / 1000\<rparr>"

definition applied_change_input :: cycle_input where
  "applied_change_input = \<lparr>running_flag = True, now_check = 10001 / 1000, set_tempo_rc = 0,
     send_clock_rc = 0, queue_tick = 0, now_slack = 10001 / 1000, now_resync = 10001 / 1000\<rparr>"

definition state_before_change :: tempo_state where
  "state_before_change = \<lparr>tick_interval = 1 / 48, next_tick_time = 10, tick_count = 480,
     beat_count = 20, current_bpm = 120, seq_index = 0, next_change_time = 10\<rparr>"

text \<open>
  A state of \<^verbatim>\<open>clock.py\<close> whose deadline is at 1 s, and the answers of a pass that
  reads the clock 0.1 s later (more than four intervals late).
\<close>

definition late_input :: cycle_input where
  "late_input = \<lparr>running_flag = True, now_check = 1, set_tempo_rc = 0,
     send_clock_rc = 0, queue_tick = 0, now_slack = 11 / 10, now_resync = 111 / 100\<rparr>"

definition state_at_one :: tick_state where
  "state_at_one = \<lparr>tick_interval = 1 / 48, next_tick_time = 1, tick_count = 48,
     beat_count = 2\<rparr>"

text \<open>
  Start-up answers with which everything succeeds, the clock at 0 s. The answers of a
  pass that takes no time at instant \<open>t\<close>; of a pass that finds the shutdown flag
  cleared; of a pass whose \<^verbatim>\<open>midi_send_clock\<close> fails. The state in which
  \<^verbatim>\<open>clock.py\<close> enters its loop.
\<close>

definition su_ok :: startup_input where
  "su_ok = \<lparr>lib_exists = True, lib_loads = True, init_rc = 0, init_tempo_rc = 0,
     client_id = 128, port_id = 0, queue_id = 0, start_rc = 0, t_sched = 0, t_start = 0\<rparr>"

definition on_time_input :: "rat \<Rightarrow> cycle_input" where
  "on_time_input t = \<lparr>running_flag = True, now_check = t, set_tempo_rc = 0,
     send_clock_rc = 0, queue_tick = 0, now_slack = t, now_resync = t\<rparr>"

definition cancel_input :: "rat \<Rightarrow> cycle_input" where
  "cancel_input t = (on_time_input t)\<lparr>running_flag := False\<rparr>"

definition clock_fail_input :: "rat \<Rightarrow> cycle_input" where
  "clock_fail_input t = (on_time_input t)\<lparr>send_clock_rc := - 1\<rparr>"

definition clock_start_state :: tick_state where
  "clock_start_state = \<lparr>tick_interval = 1 / 48, next_tick_time = 0, tick_count = 0, beat_count = 0\<rparr>"

subsection \<open>The schedule in the words of the specification\<close>

text \<open>
  The schedule \<open>[80, 140, 120]\<close> fires 10 s, 20 s, 30 s, ... after the start, cycling;
  before the first firing the tempo is \<open>BPM\<close>. The entry most recently due \<open>d\<close>
  seconds after the start is the one that fired at the last multiple of ten not
  above \<open>d\<close>.
\<close>

definition entry_most_recently_due :: "rat \<Rightarrow> int" where
  "entry_most_recently_due d =
     (if d < 10 then BPM
      else bpm_sequence ! ((nat \<lfloor>d / 10\<rfloor> - 1) mod length bpm_sequence))"

text \<open>
  No stall between the tempo checks: the clock read by each pass at its tempo check is
  not before, and less than ten seconds after, the reading of the pass before it (for
  the first pass: the reading that seeded \<^verbatim>\<open>next_change_time\<close>).
\<close>

fun checks_in_time :: "rat \<Rightarrow> cycle_input list \<Rightarrow> bool" where
  "checks_in_time prev [] = True"
| "checks_in_time prev (inp # ins) =
     (prev \<le> now_check inp \<and> now_check inp < prev + 10 \<and> checks_in_time (now_check inp) ins)"

text \<open>
  The answers of the passes of a run from 0 s to 35 s in which nothing takes time but
  the sleeps and every sleep ends on its deadline: 480 passes 1/48 s apart, from 10 s
  on 320 passes 1/32 s apart, from 20 s on 560 passes 1/56 s apart, from 30 s on 241
  passes 1/48 s apart, the last of them at 35 s.
\<close>

definition on_time_run :: "cycle_input list" where
  "on_time_run =
     map (\<lambda>k. on_time_input (of_nat k / 48)) [0..<480]
     @ map (\<lambda>k. on_time_input (10 + of_nat k / 32)) [0..<320]
     @ map (\<lambda>k. on_time_input (20 + of_nat k / 56)) [0..<560]
     @ map (\<lambda>k. on_time_input (30 + of_nat k / 48)) [0..<241]"

section \<open>Properties\<close>

subsection \<open>Helper facts\<close>

lemma auto_tick_interval_BPM: "auto_calculate_tick_interval BPM = Inr (1 / 48)"
  by (simp add: auto_calculate_tick_interval_def PPQN_def BPM_def Let_def)

lemma clock_tick_interval_value: "clock_calculate_tick_interval = Inr (1 / 48)"
  by (simp add: clock_calculate_tick_interval_def PPQN_def BPM_def Let_def)

lemma auto_tick_interval_pos:
  "0 < bpm \<Longrightarrow> auto_calculate_tick_interval bpm = Inr (60 / (of_int bpm * 24))"
  by (simp add: auto_calculate_tick_interval_def PPQN_def Let_def)

lemma bpm_sequence_pos: "i < length bpm_sequence \<Longrightarrow> 0 < bpm_sequence ! i"
  by (auto simp add: bpm_sequence_def nth_Cons' )

lemma bpm_sequence_interval:
  "i < length bpm_sequence \<Longrightarrow>
     auto_calculate_tick_interval (bpm_sequence ! i) = Inr (60 / (of_int (bpm_sequence ! i) * 24))"
  by (simp add: auto_tick_interval_pos bpm_sequence_pos)

lemma tempo_check_not_due:
  "now_check inp < next_change_time st \<Longrightarrow> tempo_change_check inp st = ([], Continue st)"
  by (simp add: tempo_change_check_def Let_def)

lemma tempo_check_failed:
  "next_change_time st \<le> now_check inp \<Longrightarrow> seq_index st < length bpm_sequence \<Longrightarrow>
   set_tempo_rc inp < 0 \<Longrightarrow>
   tempo_change_check inp st =
     ([Midi_set_tempo (bpm_sequence ! seq_index st),
       Print (Msg_tempo_warning (bpm_sequence ! seq_index st))],
      Continue (advance_schedule (now_check inp) st))"
  by (simp add: tempo_change_check_def Let_def)

lemma tempo_check_applied:
  "next_change_time st \<le> now_check inp \<Longrightarrow> seq_index st < length bpm_sequence \<Longrightarrow>
   0 \<le> set_tempo_rc inp \<Longrightarrow>
   tempo_change_check inp st =
     ([Midi_set_tempo (bpm_sequence ! seq_index st),
       Print (Msg_tempo_changed (bpm_sequence ! seq_index st))],
      Continue (advance_schedule (now_check inp)
        (st\<lparr>tick_interval := 60 / (of_int (bpm_sequence ! seq_index st) * 24),
            current_bpm := bpm_sequence ! seq_index st\<rparr>)))"
  by (simp add: tempo_change_check_def Let_def bpm_sequence_interval)

lemma send_tick_ok:
  "0 \<le> send_clock_rc inp \<Longrightarrow>
   send_tick inp st =
     (Midi_send_clock # fst (count_tick inp st)
        @ fst (wait_or_resync inp (advance_deadline (snd (count_tick inp st)))),
      Continue (snd (wait_or_resync inp (advance_deadline (snd (count_tick inp st))))))"
  by (simp add: send_tick_def sleep_until_next_tick_def split: prod.splits)

lemma send_tick_failed:
  "send_clock_rc inp < 0 \<Longrightarrow> send_tick inp st = ([Midi_send_clock, Print Msg_clock_failed], Break st)"
  by (simp add: send_tick_def)

lemma count_tick_fields [simp]:
  "tick_count (snd (count_tick inp st)) = tick_count st + 1"
  "tick_interval (snd (count_tick inp st)) = tick_interval st"
  "next_tick_time (snd (count_tick inp st)) = next_tick_time st"
  by (simp_all add: count_tick_def Let_def)

lemma count_tick_more [simp]:
  "tick_state.more (snd (count_tick inp st)) = tick_state.more st"
  by (simp add: count_tick_def Let_def)

lemma count_tick_tempo_fields [simp]:
  "current_bpm (snd (count_tick inp st)) = current_bpm st"
  "seq_index (snd (count_tick inp st)) = seq_index st"
  "next_change_time (snd (count_tick inp st)) = next_change_time st"
  by (simp_all add: count_tick_def Let_def)

lemma count_tick_beat:
  "beat_count st = tick_count st div PPQN \<Longrightarrow>
     beat_count (snd (count_tick inp st)) = tick_count (snd (count_tick inp st)) div PPQN"
  by (simp add: count_tick_def Let_def div_Suc)

lemma wait_fields [simp]:
  "tick_count (snd (wait_or_resync inp st)) = tick_count st"
  "beat_count (snd (wait_or_resync inp st)) = beat_count st"
  "tick_interval (snd (wait_or_resync inp st)) = tick_interval st"
  "tick_state.more (snd (wait_or_resync inp st)) = tick_state.more st"
  by (simp_all add: wait_or_resync_def Let_def)

lemma wait_tempo_fields [simp]:
  "current_bpm (snd (wait_or_resync inp st)) = current_bpm st"
  "seq_index (snd (wait_or_resync inp st)) = seq_index st"
  "next_change_time (snd (wait_or_resync inp st)) = next_change_time st"
  by (simp_all add: wait_or_resync_def Let_def)

lemma advance_fields [simp]:
  "tick_count (advance_deadline st) = tick_count st"
  "beat_count (advance_deadline st) = beat_count st"
  "tick_interval (advance_deadline st) = tick_interval st"
  "next_tick_time (advance_deadline st) = next_tick_time st + tick_interval st"
  "tick_state.more (advance_deadline st) = tick_state.more st"
  by (simp_all add: advance_deadline_def)

lemma advance_tempo_fields [simp]:
  "current_bpm (advance_deadline st) = current_bpm st"
  "seq_index (advance_deadline st) = seq_index st"
  "next_change_time (advance_deadline st) = next_change_time st"
  by (simp_all add: advance_deadline_def)

lemma auto_loop_body_via_check:
  "tempo_change_check inp st = (evs, Continue st1) \<Longrightarrow>
     auto_loop_body inp st = (evs @ fst (send_tick inp st1), snd (send_tick inp st1))"
  by (simp add: auto_loop_body_def split: prod.splits)

lemma send_tick_tempo_fields [simp]:
  "current_bpm (result_state (snd (send_tick inp st))) = current_bpm st"
  "seq_index (result_state (snd (send_tick inp st))) = seq_index st"
  "next_change_time (result_state (snd (send_tick inp st))) = next_change_time st"
  by (cases "send_clock_rc inp < 0"; simp add: send_tick_ok send_tick_failed)+

lemma send_tick_tick_interval [simp]:
  "tick_interval (result_state (snd (send_tick inp st))) = tick_interval st"
  by (cases "send_clock_rc inp < 0"; simp add: send_tick_ok send_tick_failed)

lemma count_tick_events:
  "fst (count_tick inp st) =
     (if (tick_count st + 1) mod PPQN = 0
      then [Midi_get_tick_count,
            Print (Msg_beat (beat_count st + 1) (tick_count st + 1) (queue_tick inp))]
      else [])"
  by (simp add: count_tick_def Let_def)

lemma wait_events:
  "fst (wait_or_resync inp st) =
     (if 0 < next_tick_time st - now_slack inp then [Sleep (next_tick_time st - now_slack inp)]
      else [])"
  by (simp add: wait_or_resync_def Let_def)

lemma wait_deadline:
  "next_tick_time (snd (wait_or_resync inp st)) =
     (if next_tick_time st - now_slack inp \<le> 0
         \<and> next_tick_time st - now_slack inp < - tick_interval st
      then now_resync inp else next_tick_time st)"
  by (simp add: wait_or_resync_def Let_def)

lemma sleeps_append [simp]: "sleeps (xs @ ys) = sleeps xs @ sleeps ys"
  by (induction xs rule: sleeps.induct) simp_all

lemma tempo_calls_append [simp]: "tempo_calls (xs @ ys) = tempo_calls xs @ tempo_calls ys"
  by (induction xs rule: tempo_calls.induct) simp_all

lemma beat_reports_append [simp]: "beat_reports (xs @ ys) = beat_reports xs @ beat_reports ys"
  by (induction xs rule: beat_reports.induct) simp_all

lemma send_tick_sleeps:
  "0 \<le> send_clock_rc inp \<Longrightarrow>
   sleeps (fst (send_tick inp st)) =
     (if 0 < next_tick_time st + tick_interval st - now_slack inp
      then [next_tick_time st + tick_interval st - now_slack inp] else [])"
  by (simp add: send_tick_ok count_tick_events wait_events)

lemma send_tick_deadline:
  "0 \<le> send_clock_rc inp \<Longrightarrow>
   next_tick_time (result_state (snd (send_tick inp st))) =
     (if next_tick_time st + tick_interval st - now_slack inp \<le> 0
         \<and> next_tick_time st + tick_interval st - now_slack inp < - tick_interval st
      then now_resync inp else next_tick_time st + tick_interval st)"
  by (simp add: send_tick_ok wait_deadline)

lemma send_tick_one_clock:
  "count_list (fst (send_tick inp st)) Midi_send_clock = 1"
  by (cases "send_clock_rc inp < 0")
    (simp_all add: send_tick_ok send_tick_failed count_tick_events wait_events)

lemma send_tick_tempo_calls [simp]: "tempo_calls (fst (send_tick inp st)) = []"
  by (cases "send_clock_rc inp < 0")
    (simp_all add: send_tick_ok send_tick_failed count_tick_events wait_events)

lemma tempo_check_no_clock:
  "count_list (fst (tempo_change_check inp st)) Midi_send_clock = 0"
  by (simp add: tempo_change_check_def Let_def split: sum.splits)

lemma tempo_check_index_error:
  "next_change_time st \<le> now_check inp \<Longrightarrow> \<not> seq_index st < length bpm_sequence \<Longrightarrow>
     tempo_change_check inp st = ([], Raised IndexError st)"
  by (simp add: tempo_change_check_def Let_def)

lemma tempo_check_calls:
  "length (tempo_calls (fst (tempo_change_check inp st))) \<le> 1"
proof (cases "next_change_time st \<le> now_check inp")
  case due: True
  show ?thesis
  proof (cases "seq_index st < length bpm_sequence")
    case True
    with due show ?thesis
      by (cases "set_tempo_rc inp < 0") (simp_all add: tempo_check_failed tempo_check_applied)
  next
    case False
    with due show ?thesis by (simp add: tempo_check_index_error)
  qed
next
  case False
  then show ?thesis by (simp add: tempo_check_not_due)
qed

lemma send_tick_continues: "0 \<le> send_clock_rc inp \<Longrightarrow> continues (snd (send_tick inp st))"
  by (simp add: send_tick_ok)

lemma auto_loop_body_cases:
  "auto_loop_body inp st =
     (if continues (snd (tempo_change_check inp st))
      then (fst (tempo_change_check inp st)
              @ fst (send_tick inp (result_state (snd (tempo_change_check inp st)))),
            snd (send_tick inp (result_state (snd (tempo_change_check inp st)))))
      else tempo_change_check inp st)"
  by (cases "tempo_change_check inp st"; cases "snd (tempo_change_check inp st)")
     (auto simp add: auto_loop_body_def split: prod.splits)

lemma auto_loop_body_one_clock:
  "count_list (fst (auto_loop_body inp st)) Midi_send_clock \<le> 1"
  by (simp add: auto_loop_body_cases send_tick_one_clock tempo_check_no_clock)

lemma auto_loop_body_calls:
  "length (tempo_calls (fst (auto_loop_body inp st))) \<le> 1"
  using tempo_check_calls [of inp st] by (simp add: auto_loop_body_cases)

lemma clock_main_loop_Cons:
  "clock_main_loop (inp # ins) st =
     (if \<not> running_flag inp then ([], Loop_exited st)
      else if send_clock_rc inp < 0
      then ([Midi_send_clock, Print Msg_clock_failed], Loop_exited st)
      else (fst (send_tick inp st)
              @ fst (clock_main_loop ins (result_state (snd (send_tick inp st)))),
            snd (clock_main_loop ins (result_state (snd (send_tick inp st))))))"
  by (simp add: send_tick_ok send_tick_failed split: prod.splits)

lemma auto_main_loop_Cons:
  "auto_main_loop (inp # ins) st =
     (if \<not> running_flag inp then ([], Loop_exited st)
      else case snd (auto_loop_body inp st) of
             Continue st' \<Rightarrow>
               (fst (auto_loop_body inp st) @ fst (auto_main_loop ins st'),
                snd (auto_main_loop ins st'))
           | Break st' \<Rightarrow> (fst (auto_loop_body inp st), Loop_exited st')
           | Raised e st' \<Rightarrow>
               (fst (auto_loop_body inp st) @ [Print (Msg_loop_error e)], Loop_exited st'))"
  by (simp split: prod.splits cycle_result.splits)

lemma send_tick_counts:
  "tick_count (result_state (snd (send_tick inp st))) =
     (if send_clock_rc inp < 0 then tick_count st else tick_count st + 1)"
  by (simp add: send_tick_ok send_tick_failed)

lemma send_tick_beat:
  "beat_count st = tick_count st div PPQN \<Longrightarrow>
   beat_count (result_state (snd (send_tick inp st))) =
     tick_count (result_state (snd (send_tick inp st))) div PPQN"
  by (cases "send_clock_rc inp < 0") (simp_all add: send_tick_ok send_tick_failed count_tick_beat)

lemma tempo_check_counts [simp]:
  "tick_count (result_state (snd (tempo_change_check inp st))) = tick_count st"
  "beat_count (result_state (snd (tempo_change_check inp st))) = beat_count st"
  by (simp_all add: tempo_change_check_def Let_def advance_schedule_def split: sum.splits)

lemma tempo_check_no_reports [simp]:
  "beat_reports (fst (tempo_change_check inp st)) = []"
  by (simp add: tempo_change_check_def Let_def split: sum.splits)

lemma auto_loop_body_counts:
  "tick_count (result_state (snd (auto_loop_body inp st))) =
     (if continues (snd (auto_loop_body inp st)) then tick_count st + 1 else tick_count st)"
  by (cases "send_clock_rc inp < 0")
    (simp_all add: auto_loop_body_cases send_tick_ok send_tick_failed)

lemma auto_loop_body_beat:
  "beat_count st = tick_count st div PPQN \<Longrightarrow>
   beat_count (result_state (snd (auto_loop_body inp st))) =
     tick_count (result_state (snd (auto_loop_body inp st))) div PPQN"
  by (simp add: auto_loop_body_cases send_tick_beat)

lemma tempo_check_continues:
  "seq_index st < length bpm_sequence \<Longrightarrow>
     continues (snd (tempo_change_check inp st))
     \<and> seq_index (result_state (snd (tempo_change_check inp st))) < length bpm_sequence"
  by (cases "next_change_time st \<le> now_check inp"; cases "set_tempo_rc inp < 0")
    (simp_all add: tempo_check_failed tempo_check_applied tempo_check_not_due
      advance_schedule_def bpm_sequence_def)

lemma auto_loop_body_continues:
  "seq_index st < length bpm_sequence \<Longrightarrow> 0 \<le> send_clock_rc inp \<Longrightarrow>
     continues (snd (auto_loop_body inp st))
     \<and> seq_index (result_state (snd (auto_loop_body inp st))) < length bpm_sequence"
  by (simp add: auto_loop_body_cases tempo_check_continues send_tick_continues)

lemma clock_loop_beat:
  "beat_count st = tick_count st div PPQN \<Longrightarrow>
   beat_count (loop_state (snd (clock_main_loop ins st))) =
     tick_count (loop_state (snd (clock_main_loop ins st))) div PPQN"
proof (induction ins arbitrary: st)
  case Nil
  then show ?case by simp
next
  case (Cons inp ins)
  then show ?case
    by (simp add: clock_main_loop_Cons send_tick_beat del: clock_main_loop.simps)
qed

lemma auto_loop_beat:
  "beat_count st = tick_count st div PPQN \<Longrightarrow>
   beat_count (loop_state (snd (auto_main_loop ins st))) =
     tick_count (loop_state (snd (auto_main_loop ins st))) div PPQN"
proof (induction ins arbitrary: st)
  case Nil
  then show ?case by simp
next
  case (Cons inp ins)
  have b: "beat_count (result_state (snd (auto_loop_body inp st))) =
     tick_count (result_state (snd (auto_loop_body inp st))) div PPQN"
    using Cons.prems by (rule auto_loop_body_beat)
  show ?case
  proof (cases "snd (auto_loop_body inp st)")
    case (Continue st')
    with b Cons.IH [of st'] Cons.prems show ?thesis
      by (simp add: auto_main_loop_Cons del: auto_main_loop.simps)
  next
    case (Break st')
    with b Cons.prems show ?thesis
      by (simp add: auto_main_loop_Cons del: auto_main_loop.simps)
  next
    case (Raised e st')
    with b Cons.prems show ?thesis
      by (simp add: auto_main_loop_Cons del: auto_main_loop.simps)
  qed
qed

lemma clock_loop_good_run:
  "list_all (\<lambda>i. running_flag i \<and> 0 \<le> send_clock_rc i) ins \<Longrightarrow>
     snd (clock_main_loop ins st) = Still_running (loop_state (snd (clock_main_loop ins st)))
     \<and> tick_count (loop_state (snd (clock_main_loop ins st))) = tick_count st + length ins"
proof (induction ins arbitrary: st)
  case Nil
  then show ?case by simp
next
  case (Cons inp ins)
  then show ?case
    by (simp add: clock_main_loop_Cons send_tick_counts del: clock_main_loop.simps)
qed

lemma auto_loop_good_run:
  "seq_index st < length bpm_sequence \<Longrightarrow>
   list_all (\<lambda>i. running_flag i \<and> 0 \<le> send_clock_rc i) ins \<Longrightarrow>
     snd (auto_main_loop ins st) = Still_running (loop_state (snd (auto_main_loop ins st)))
     \<and> tick_count (loop_state (snd (auto_main_loop ins st))) = tick_count st + length ins"
proof (induction ins arbitrary: st)
  case Nil
  then show ?case by simp
next
  case (Cons inp ins)
  from Cons.prems have ok: "running_flag inp" "0 \<le> send_clock_rc inp"
    and rest: "list_all (\<lambda>i. running_flag i \<and> 0 \<le> send_clock_rc i) ins"
    by simp_all
  from auto_loop_body_continues [OF Cons.prems(1) ok(2)]
  obtain st' where st': "snd (auto_loop_body inp st) = Continue st'"
    and idx: "seq_index st' < length bpm_sequence"
    by (cases "snd (auto_loop_body inp st)") simp_all
  have "tick_count st' = tick_count st + 1"
    using auto_loop_body_counts [of inp st] st' by simp
  with Cons.IH [OF idx rest] st' ok show ?case
    by (simp add: auto_main_loop_Cons del: auto_main_loop.simps)
qed

lemma beat_boundary:
  "b = t div 24 \<Longrightarrow> Suc t mod 24 = 0 \<Longrightarrow> Suc t = Suc b * 24"
  by presburger

lemma count_tick_reports:
  "beat_count st = tick_count st div PPQN \<Longrightarrow>
   map (\<lambda>(b, n, q). (b, n)) (beat_reports (fst (count_tick inp st))) =
     map (\<lambda>k. (k, k * PPQN)) [beat_count st + 1 ..< beat_count (snd (count_tick inp st)) + 1]"
  by (auto simp add: count_tick_def Let_def PPQN_def dest: beat_boundary)

lemma wait_no_reports [simp]: "beat_reports (fst (wait_or_resync inp st)) = []"
  by (simp add: wait_events)

lemma send_tick_reports:
  "beat_count st = tick_count st div PPQN \<Longrightarrow>
   map (\<lambda>(b, n, q). (b, n)) (beat_reports (fst (send_tick inp st))) =
     map (\<lambda>k. (k, k * PPQN))
       [beat_count st + 1 ..< beat_count (result_state (snd (send_tick inp st))) + 1]"
  by (cases "send_clock_rc inp < 0")
    (simp_all add: send_tick_ok send_tick_failed count_tick_reports)

lemma send_tick_beat_mono:
  "beat_count st \<le> beat_count (result_state (snd (send_tick inp st)))"
  by (cases "send_clock_rc inp < 0")
    (simp_all add: send_tick_ok send_tick_failed count_tick_def Let_def)

lemma auto_loop_body_reports:
  "beat_count st = tick_count st div PPQN \<Longrightarrow>
   map (\<lambda>(b, n, q). (b, n)) (beat_reports (fst (auto_loop_body inp st))) =
     map (\<lambda>k. (k, k * PPQN))
       [beat_count st + 1 ..< beat_count (result_state (snd (auto_loop_body inp st))) + 1]"
proof (cases "continues (snd (tempo_change_check inp st))")
  case True
  assume inv: "beat_count st = tick_count st div PPQN"
  let ?s1 = "result_state (snd (tempo_change_check inp st))"
  have "beat_count ?s1 = tick_count ?s1 div PPQN"
    using inv by simp
  from send_tick_reports [OF this, of inp] True show ?thesis
    by (simp add: auto_loop_body_cases)
next
  case False
  then show ?thesis
    by (simp add: auto_loop_body_cases)
qed

lemma auto_loop_body_beat_mono:
  "beat_count st \<le> beat_count (result_state (snd (auto_loop_body inp st)))"
  using send_tick_beat_mono [of "result_state (snd (tempo_change_check inp st))" inp]
  by (simp add: auto_loop_body_cases)

lemma clock_loop_beat_mono:
  "beat_count st \<le> beat_count (loop_state (snd (clock_main_loop ins st)))"
proof (induction ins arbitrary: st)
  case Nil
  then show ?case by simp
next
  case (Cons inp ins)
  show ?case
    using send_tick_beat_mono [of st inp] Cons.IH [of "result_state (snd (send_tick inp st))"]
    by (simp add: clock_main_loop_Cons del: clock_main_loop.simps)
qed

lemma auto_loop_beat_mono:
  "beat_count st \<le> beat_count (loop_state (snd (auto_main_loop ins st)))"
proof (induction ins arbitrary: st)
  case Nil
  then show ?case by simp
next
  case (Cons inp ins)
  show ?case
    using auto_loop_body_beat_mono [of st inp]
      Cons.IH [of "result_state (snd (auto_loop_body inp st))"]
    by (cases "snd (auto_loop_body inp st)")
      (simp_all add: auto_main_loop_Cons del: auto_main_loop.simps)
qed

lemma range_join:
  "a \<le> b \<Longrightarrow> b \<le> c \<Longrightarrow>
     map f [Suc a ..< Suc b] @ map f [Suc b ..< Suc c] = map f [Suc a ..< Suc c]"
  by (metis Suc_le_mono map_append upt_add_eq_append le_Suc_ex)

lemma clock_loop_reports:
  "beat_count st = tick_count st div PPQN \<Longrightarrow>
   map (\<lambda>(b, n, q). (b, n)) (beat_reports (fst (clock_main_loop ins st))) =
     map (\<lambda>k. (k, k * PPQN))
       [beat_count st + 1 ..< beat_count (loop_state (snd (clock_main_loop ins st))) + 1]"
proof (induction ins arbitrary: st)
  case Nil
  then show ?case by simp
next
  case (Cons inp ins)
  let ?st' = "result_state (snd (send_tick inp st))"
  have inv: "beat_count ?st' = tick_count ?st' div PPQN"
    using Cons.prems by (rule send_tick_beat)
  show ?case
  proof (cases "running_flag inp \<and> \<not> send_clock_rc inp < 0")
    case True
    have "map (\<lambda>(b, n, q). (b, n)) (beat_reports (fst (clock_main_loop (inp # ins) st))) =
        map (\<lambda>k. (k, k * PPQN)) [Suc (beat_count st) ..< Suc (beat_count ?st')]
        @ map (\<lambda>k. (k, k * PPQN))
            [Suc (beat_count ?st') ..< Suc (beat_count (loop_state (snd (clock_main_loop ins ?st'))))]"
      using True send_tick_reports [OF Cons.prems, of inp] Cons.IH [OF inv]
      by (simp add: clock_main_loop_Cons del: clock_main_loop.simps)
    also have "\<dots> = map (\<lambda>k. (k, k * PPQN))
        [Suc (beat_count st) ..< Suc (beat_count (loop_state (snd (clock_main_loop ins ?st'))))]"
      by (rule range_join) (rule send_tick_beat_mono, rule clock_loop_beat_mono)
    finally show ?thesis
      using True by (simp add: clock_main_loop_Cons del: clock_main_loop.simps)
  next
    case False
    then show ?thesis
      by (auto simp add: clock_main_loop_Cons simp del: clock_main_loop.simps)
  qed
qed

lemma auto_loop_reports:
  "beat_count st = tick_count st div PPQN \<Longrightarrow>
   map (\<lambda>(b, n, q). (b, n)) (beat_reports (fst (auto_main_loop ins st))) =
     map (\<lambda>k. (k, k * PPQN))
       [beat_count st + 1 ..< beat_count (loop_state (snd (auto_main_loop ins st))) + 1]"
proof (induction ins arbitrary: st)
  case Nil
  then show ?case by simp
next
  case (Cons inp ins)
  let ?st' = "result_state (snd (auto_loop_body inp st))"
  have inv: "beat_count ?st' = tick_count ?st' div PPQN"
    using Cons.prems by (rule auto_loop_body_beat)
  note body = auto_loop_body_reports [OF Cons.prems, of inp]
  show ?case
  proof (cases "running_flag inp")
    case False
    then show ?thesis by simp
  next
    case True
    show ?thesis
    proof (cases "snd (auto_loop_body inp st)")
      case (Continue st1)
      then have st1: "?st' = st1" by simp
      have "map (\<lambda>(b, n, q). (b, n)) (beat_reports (fst (auto_main_loop (inp # ins) st))) =
          map (\<lambda>k. (k, k * PPQN)) [Suc (beat_count st) ..< Suc (beat_count ?st')]
          @ map (\<lambda>k. (k, k * PPQN))
              [Suc (beat_count ?st') ..< Suc (beat_count (loop_state (snd (auto_main_loop ins ?st'))))]"
        using True Continue body Cons.IH [OF inv]
        by (simp add: auto_main_loop_Cons del: auto_main_loop.simps)
      also have "\<dots> = map (\<lambda>k. (k, k * PPQN))
          [Suc (beat_count st) ..< Suc (beat_count (loop_state (snd (auto_main_loop ins ?st'))))]"
        by (rule range_join) (rule auto_loop_body_beat_mono, rule auto_loop_beat_mono)
      finally show ?thesis
        using True Continue by (simp add: auto_main_loop_Cons del: auto_main_loop.simps)
    next
      case (Break st1)
      with True body show ?thesis
        by (simp add: auto_main_loop_Cons del: auto_main_loop.simps)
    next
      case (Raised e st1)
      with True body show ?thesis
        by (simp add: auto_main_loop_Cons del: auto_main_loop.simps)
    qed
  qed
qed

lemma send_tick_no_shutdown:
  "e = Midi_cleanup \<or> e = Midi_send_stop \<Longrightarrow> count_list (fst (send_tick inp st)) e = 0"
  by (cases "send_clock_rc inp < 0")
    (auto simp add: send_tick_ok send_tick_failed count_tick_events wait_events)

lemma tempo_check_no_shutdown:
  "e = Midi_cleanup \<or> e = Midi_send_stop \<Longrightarrow>
     count_list (fst (tempo_change_check inp st)) e = 0"
  by (auto simp add: tempo_change_check_def Let_def split: sum.splits)

lemma auto_loop_body_no_shutdown:
  "e = Midi_cleanup \<or> e = Midi_send_stop \<Longrightarrow>
     count_list (fst (auto_loop_body inp st)) e = 0"
  by (simp add: auto_loop_body_cases send_tick_no_shutdown tempo_check_no_shutdown)

lemma clock_loop_no_shutdown:
  "e = Midi_cleanup \<or> e = Midi_send_stop \<Longrightarrow>
     count_list (fst (clock_main_loop ins st)) e = 0"
proof (induction ins arbitrary: st)
  case Nil
  then show ?case by simp
next
  case (Cons inp ins)
  from Cons.prems Cons.IH [OF Cons.prems] send_tick_no_shutdown [OF Cons.prems, of inp st]
  show ?case
    by (auto simp add: clock_main_loop_Cons simp del: clock_main_loop.simps)
qed

lemma auto_loop_no_shutdown:
  "e = Midi_cleanup \<or> e = Midi_send_stop \<Longrightarrow>
     count_list (fst (auto_main_loop ins st)) e = 0"
proof (induction ins arbitrary: st)
  case Nil
  then show ?case by simp
next
  case (Cons inp ins)
  from Cons.prems Cons.IH [OF Cons.prems] auto_loop_body_no_shutdown [OF Cons.prems, of inp st]
  show ?case
    by (cases "snd (auto_loop_body inp st)")
      (auto simp add: auto_main_loop_Cons simp del: auto_main_loop.simps)
qed

lemma clock_loop_exits:
  "list_ex (\<lambda>i. \<not> running_flag i \<or> send_clock_rc i < 0) ins \<Longrightarrow>
     snd (clock_main_loop ins st) = Loop_exited (loop_state (snd (clock_main_loop ins st)))"
proof (induction ins arbitrary: st)
  case Nil
  then show ?case by simp
next
  case (Cons inp ins)
  then show ?case
    by (auto simp add: clock_main_loop_Cons simp del: clock_main_loop.simps)
qed

lemma auto_loop_body_clock_failed:
  "send_clock_rc inp < 0 \<Longrightarrow> \<not> continues (snd (auto_loop_body inp st))"
  by (simp add: auto_loop_body_cases send_tick_failed)

lemma auto_loop_exits:
  "list_ex (\<lambda>i. \<not> running_flag i \<or> send_clock_rc i < 0) ins \<Longrightarrow>
     snd (auto_main_loop ins st) = Loop_exited (loop_state (snd (auto_main_loop ins st)))"
proof (induction ins arbitrary: st)
  case Nil
  then show ?case by simp
next
  case (Cons inp ins)
  show ?case
  proof (cases "snd (auto_loop_body inp st)")
    case (Continue st')
    then have "\<not> send_clock_rc inp < 0"
      using auto_loop_body_clock_failed [of inp st] by auto
    with Cons.prems Cons.IH [of st'] Continue show ?thesis
      by (auto simp add: auto_main_loop_Cons simp del: auto_main_loop.simps)
  next
    case (Break st')
    then show ?thesis
      by (simp add: auto_main_loop_Cons del: auto_main_loop.simps)
  next
    case (Raised e st')
    then show ?thesis
      by (simp add: auto_main_loop_Cons del: auto_main_loop.simps)
  qed
qed

lemma clock_main_started:
  "lib_exists su \<Longrightarrow> lib_loads su \<Longrightarrow> 0 \<le> init_rc su \<Longrightarrow> 0 \<le> start_rc su \<Longrightarrow>
   clock_main su ins =
     (case snd (clock_main_loop ins
            \<lparr>tick_interval = 1 / 48, next_tick_time = t_start su,
             tick_count = 0, beat_count = 0\<rparr>) of
        Still_running st \<Rightarrow> None
      | Loop_exited st \<Rightarrow>
          Some ([Print Msg_banner, Print Msg_initializing, Midi_init, Midi_get_ids,
                 Print (Msg_ids (client_id su) (port_id su) (queue_id su)),
                 Midi_send_start, Print (Msg_tick_interval (1 / 48))]
                @ fst (clock_main_loop ins
                    \<lparr>tick_interval = 1 / 48, next_tick_time = t_start su,
                     tick_count = 0, beat_count = 0\<rparr>)
                @ [Print Msg_stopping, Midi_send_stop, Sleep (1 / 10), Midi_cleanup,
                   Print (Msg_totals (tick_count st) (beat_count st)),
                   Print Msg_shutdown_complete],
                Return 0))"
  by (simp add: clock_main_def clock_tick_interval_value shutdown_def
      split: prod.splits loop_outcome.splits)

lemma auto_main_started:
  "lib_exists su \<Longrightarrow> lib_loads su \<Longrightarrow> 0 \<le> init_rc su \<Longrightarrow> 0 \<le> start_rc su \<Longrightarrow>
   auto_main su ins =
     (case snd (auto_main_loop ins (auto_initial_state su (1 / 48))) of
        Still_running st \<Rightarrow> None
      | Loop_exited st \<Rightarrow>
          Some (auto_startup_events su @ [Print (Msg_tick_interval (1 / 48))]
                @ fst (auto_main_loop ins (auto_initial_state su (1 / 48)))
                @ [Print Msg_stopping, Midi_send_stop, Sleep (1 / 10), Midi_cleanup,
                   Print (Msg_totals (tick_count st) (beat_count st)),
                   Print Msg_shutdown_complete],
                Return 0))"
  by (simp add: auto_main_def auto_tick_interval_BPM shutdown_def
      split: prod.splits loop_outcome.splits)

lemma main_start_failed:
  "lib_exists su \<Longrightarrow> lib_loads su \<Longrightarrow> 0 \<le> init_rc su \<Longrightarrow> start_rc su < 0 \<Longrightarrow>
   clock_main su ins =
     Some ([Print Msg_banner, Print Msg_initializing, Midi_init, Midi_get_ids,
            Print (Msg_ids (client_id su) (port_id su) (queue_id su)),
            Midi_send_start, Print Msg_start_failed, Midi_cleanup], Return 1)
   \<and> auto_main su ins =
     Some (auto_startup_events su @ [Print Msg_start_failed, Midi_cleanup], Return 1)"
  by (simp add: clock_main_def auto_main_def)

lemma startup_no_shutdown:
  "e = Midi_cleanup \<or> e = Midi_send_stop \<Longrightarrow> count_list (auto_startup_events su) e = 0"
  by (auto simp add: auto_startup_events_def)

lemma tempo_check_due:
  assumes "seq_index st < length bpm_sequence" and "next_change_time st \<le> now_check inp"
  shows "continues (snd (tempo_change_check inp st))"
    and "tempo_calls (fst (tempo_change_check inp st)) = [bpm_sequence ! seq_index st]"
    and "seq_index (result_state (snd (tempo_change_check inp st))) =
           (seq_index st + 1) mod length bpm_sequence"
    and "next_change_time (result_state (snd (tempo_change_check inp st))) =
           next_change_time st + 10"
  using assms
  by (cases "set_tempo_rc inp < 0";
      simp add: tempo_check_failed tempo_check_applied advance_schedule_def)+

lemma auto_loop_body_due:
  assumes "seq_index st < length bpm_sequence" and "next_change_time st \<le> now_check inp"
  shows "tempo_calls (fst (auto_loop_body inp st)) = [bpm_sequence ! seq_index st]"
    and "seq_index (result_state (snd (auto_loop_body inp st))) =
           (seq_index st + 1) mod length bpm_sequence"
    and "next_change_time (result_state (snd (auto_loop_body inp st))) =
           next_change_time st + 10"
  using tempo_check_due [OF assms] by (simp_all add: auto_loop_body_cases)

lemma overdue_entries:
  "seq_index st < length bpm_sequence \<Longrightarrow>
   next_change_time st + 10 * of_nat (length ins) - 10 \<le> B \<Longrightarrow>
   list_all (\<lambda>i. running_flag i \<and> 0 \<le> send_clock_rc i \<and> B \<le> now_check i) ins \<Longrightarrow>
     tempo_calls (fst (auto_main_loop ins st)) =
       map (\<lambda>j. bpm_sequence ! ((seq_index st + j) mod length bpm_sequence)) [0..<length ins]
     \<and> next_change_time (loop_state (snd (auto_main_loop ins st))) =
         next_change_time st + 10 * of_nat (length ins)"
proof (induction ins arbitrary: st)
  case Nil
  then show ?case by simp
next
  case (Cons inp ins)
  from Cons.prems have ok: "running_flag inp" "0 \<le> send_clock_rc inp" "B \<le> now_check inp"
    and rest: "list_all (\<lambda>i. running_flag i \<and> 0 \<le> send_clock_rc i \<and> B \<le> now_check i) ins"
    by simp_all
  have due: "next_change_time st \<le> now_check inp"
    using Cons.prems(2) ok(3) by simp
  note body = auto_loop_body_due [OF Cons.prems(1) due]
  from auto_loop_body_continues [OF Cons.prems(1) ok(2)]
  obtain st' where st': "snd (auto_loop_body inp st) = Continue st'"
    and idx: "seq_index st' < length bpm_sequence"
    by (cases "snd (auto_loop_body inp st)") simp_all
  have s': "seq_index st' = (seq_index st + 1) mod length bpm_sequence"
    and n': "next_change_time st' = next_change_time st + 10"
    using body(2,3) st' by simp_all
  have bound: "next_change_time st' + 10 * of_nat (length ins) - 10 \<le> B"
    using Cons.prems(2) n' by simp
  note ih = Cons.IH [OF idx bound rest]
  have shift: "((seq_index st + 1) mod length bpm_sequence + j) mod length bpm_sequence =
      (seq_index st + Suc j) mod length bpm_sequence" for j
    by (simp add: mod_add_left_eq)
  have calls: "tempo_calls (fst (auto_main_loop (inp # ins) st)) =
      bpm_sequence ! seq_index st
      # map (\<lambda>j. bpm_sequence ! ((seq_index st + Suc j) mod length bpm_sequence)) [0..<length ins]"
    using ok st' body(1) ih s' shift
    by (simp add: auto_main_loop_Cons del: auto_main_loop.simps)
  have "map (\<lambda>j. bpm_sequence ! ((seq_index st + j) mod length bpm_sequence))
          [0..<length (inp # ins)] =
      bpm_sequence ! seq_index st
      # map (\<lambda>j. bpm_sequence ! ((seq_index st + Suc j) mod length bpm_sequence)) [0..<length ins]"
    using Cons.prems(1) by (simp add: map_upt_Suc del: upt_Suc)
  with calls have c: "tempo_calls (fst (auto_main_loop (inp # ins) st)) =
      map (\<lambda>j. bpm_sequence ! ((seq_index st + j) mod length bpm_sequence))
          [0..<length (inp # ins)]"
    by simp
  have "next_change_time (loop_state (snd (auto_main_loop (inp # ins) st))) =
      next_change_time st + 10 * of_nat (length (inp # ins))"
    using ok st' ih n'
    by (simp add: auto_main_loop_Cons del: auto_main_loop.simps)
  with c show ?case ..
qed

lemma due_in_window:
  assumes "t0 + 10 * of_nat k \<le> t" and "t < t0 + 10 * (of_nat k + 1)"
  shows "entry_most_recently_due (t - t0) =
           (if k = 0 then BPM else bpm_sequence ! ((k - 1) mod length bpm_sequence))"
proof -
  have "\<lfloor>(t - t0) / 10\<rfloor> = int k"
  proof (rule floor_unique)
    show "of_int (int k) \<le> (t - t0) / 10" using assms(1) by simp
    show "(t - t0) / 10 < of_int (int k) + 1" using assms(2) by simp
  qed
  moreover have "t - t0 < 10 \<longleftrightarrow> k = 0"
  proof
    assume "t - t0 < 10"
    with assms(1) have "(of_nat k :: rat) < 1" by simp
    then show "k = 0" by simp
  next
    assume "k = 0"
    with assms(2) show "t - t0 < 10" by simp
  qed
  ultimately show ?thesis
    by (simp add: entry_most_recently_due_def)
qed

lemma auto_loop_body_applied:
  assumes "seq_index st < length bpm_sequence" and "next_change_time st \<le> now_check inp"
    and "0 \<le> set_tempo_rc inp"
  shows "current_bpm (result_state (snd (auto_loop_body inp st))) = bpm_sequence ! seq_index st"
  using assms by (simp add: auto_loop_body_cases tempo_check_applied advance_schedule_def)

lemma auto_loop_body_not_due:
  assumes "now_check inp < next_change_time st"
  shows "current_bpm (result_state (snd (auto_loop_body inp st))) = current_bpm st"
    and "seq_index (result_state (snd (auto_loop_body inp st))) = seq_index st"
    and "next_change_time (result_state (snd (auto_loop_body inp st))) = next_change_time st"
  using assms by (simp_all add: auto_loop_body_cases tempo_check_not_due)

lemma schedule_follows_time:
  "list_all (\<lambda>i. running_flag i \<and> 0 \<le> send_clock_rc i \<and> 0 \<le> set_tempo_rc i) ins \<Longrightarrow>
   next_change_time st = t0 + 10 * (of_nat k + 1) \<Longrightarrow>
   seq_index st = k mod length bpm_sequence \<Longrightarrow>
   current_bpm st = (if k = 0 then BPM else bpm_sequence ! ((k - 1) mod length bpm_sequence)) \<Longrightarrow>
   t0 + 10 * of_nat k \<le> prev \<Longrightarrow> prev < t0 + 10 * (of_nat k + 1) \<Longrightarrow>
   checks_in_time prev ins \<Longrightarrow>
     current_bpm (loop_state (snd (auto_main_loop ins st))) =
       entry_most_recently_due (last (prev # map now_check ins) - t0)"
proof (induction ins arbitrary: st k prev)
  case Nil
  then show ?case by (simp add: due_in_window)
next
  case (Cons inp ins)
  let ?now = "now_check inp"
  from Cons.prems(1) have ok: "running_flag inp" "0 \<le> send_clock_rc inp" "0 \<le> set_tempo_rc inp"
    and rest: "list_all (\<lambda>i. running_flag i \<and> 0 \<le> send_clock_rc i \<and> 0 \<le> set_tempo_rc i) ins"
    by simp_all
  from Cons.prems(7) have t: "prev \<le> ?now" "?now < prev + 10" and tl: "checks_in_time ?now ins"
    by simp_all
  have idx: "seq_index st < length bpm_sequence"
    using Cons.prems(3) by (simp add: bpm_sequence_def)
  from auto_loop_body_continues [OF idx ok(2)]
  obtain st' where st': "snd (auto_loop_body inp st) = Continue st'"
    by (cases "snd (auto_loop_body inp st)") simp_all
  have loop: "snd (auto_main_loop (inp # ins) st) = snd (auto_main_loop ins st')"
    using ok st' by (simp add: auto_main_loop_Cons del: auto_main_loop.simps)
  have "current_bpm (loop_state (snd (auto_main_loop ins st'))) =
       entry_most_recently_due (last (?now # map now_check ins) - t0)"
  proof (cases "next_change_time st \<le> ?now")
    case True
    have b: "current_bpm st' = (if Suc k = 0 then BPM
        else bpm_sequence ! ((Suc k - 1) mod length bpm_sequence))"
      using auto_loop_body_applied [OF idx True ok(3)] st' Cons.prems(3) by simp
    have s: "seq_index st' = Suc k mod length bpm_sequence"
      using auto_loop_body_due(2) [OF idx True] st' Cons.prems(3)
      by (simp add: mod_Suc_eq)
    have n: "next_change_time st' = t0 + 10 * (of_nat (Suc k) + 1)"
      using auto_loop_body_due(3) [OF idx True] st' Cons.prems(2) by simp
    have lo: "t0 + 10 * of_nat (Suc k) \<le> ?now"
      using True Cons.prems(2) by simp
    have hi: "?now < t0 + 10 * (of_nat (Suc k) + 1)"
      using t(2) Cons.prems(6) by simp
    from Cons.IH [OF rest n s b lo hi tl] show ?thesis .
  next
    case False
    then have nd: "?now < next_change_time st" by simp
    have b: "current_bpm st' = (if k = 0 then BPM
        else bpm_sequence ! ((k - 1) mod length bpm_sequence))"
      using auto_loop_body_not_due(1) [OF nd] st' Cons.prems(4) by simp
    have s: "seq_index st' = k mod length bpm_sequence"
      using auto_loop_body_not_due(2) [OF nd] st' Cons.prems(3) by simp
    have n: "next_change_time st' = t0 + 10 * (of_nat k + 1)"
      using auto_loop_body_not_due(3) [OF nd] st' Cons.prems(2) by simp
    have lo: "t0 + 10 * of_nat k \<le> ?now"
      using t(1) Cons.prems(5) by simp
    have hi: "?now < t0 + 10 * (of_nat k + 1)"
      using nd Cons.prems(2) by simp
    from Cons.IH [OF rest n s b lo hi tl] show ?thesis .
  qed
  with loop show ?case by simp
qed

lemma schedule_from_start:
  assumes "list_all (\<lambda>i. running_flag i \<and> 0 \<le> send_clock_rc i \<and> 0 \<le> set_tempo_rc i) ins"
    and "checks_in_time (t_sched su) ins"
  shows "current_bpm (loop_state (snd (auto_main_loop ins (auto_initial_state su iv)))) =
       entry_most_recently_due (last (t_sched su # map now_check ins) - t_sched su)"
  by (rule schedule_follows_time [OF assms(1), where k = 0])
    (simp_all add: auto_initial_state_def assms(2))

lemma checks_in_time_append:
  "checks_in_time p (xs @ ys) =
     (checks_in_time p xs \<and> checks_in_time (last (p # map now_check xs)) ys)"
  by (induction xs arbitrary: p) simp_all

lemma now_check_on_time [simp]: "now_check (on_time_input t) = t"
  by (simp add: on_time_input_def)

lemma progression_in_time:
  "0 < c \<Longrightarrow> 1 < 10 * c \<Longrightarrow> p \<le> a \<Longrightarrow> a < p + 10 \<Longrightarrow>
     checks_in_time p (map (\<lambda>k. on_time_input (a + of_nat k / c)) [0..<n])"
proof (induction n arbitrary: a p)
  case 0
  then show ?case by simp
next
  case (Suc n)
  have step: "a \<le> a + 1 / c" "a + 1 / c < a + 10"
    using Suc.prems(1,2) by (simp_all add: field_simps)
  have "map (\<lambda>k. on_time_input (a + of_nat k / c)) [0..<Suc n] =
      on_time_input a # map (\<lambda>k. on_time_input (a + 1 / c + of_nat k / c)) [0..<n]"
    by (simp add: map_upt_Suc add_divide_distrib add.assoc del: upt_Suc)
  with Suc.IH [OF Suc.prems(1,2) step] Suc.prems(3,4) show ?case
    by simp
qed

lemma progression_last:
  "last (p # map now_check (map (\<lambda>k. on_time_input (a + of_nat k / c)) [0..<n])) =
     (if n = 0 then p else a + of_nat (n - 1) / c)"
  by (cases n) simp_all

lemma on_time_run_in_time: "checks_in_time 0 on_time_run"
proof -
  have s1: "checks_in_time 0 (map (\<lambda>k. on_time_input (0 + of_nat k / 48)) [0..<480])"
    by (rule progression_in_time) simp_all
  have s2: "checks_in_time (0 + of_nat (480 - 1) / 48)
      (map (\<lambda>k. on_time_input (10 + of_nat k / 32)) [0..<320])"
    by (rule progression_in_time) simp_all
  have s3: "checks_in_time (10 + of_nat (320 - 1) / 32)
      (map (\<lambda>k. on_time_input (20 + of_nat k / 56)) [0..<560])"
    by (rule progression_in_time) simp_all
  have s4: "checks_in_time (20 + of_nat (560 - 1) / 56)
      (map (\<lambda>k. on_time_input (30 + of_nat k / 48)) [0..<241])"
    by (rule progression_in_time) simp_all
  have l1: "last (0 # map now_check (map (\<lambda>k. on_time_input (0 + of_nat k / 48)) [0..<480])) =
      0 + of_nat (480 - 1) / 48"
    by (simp only: progression_last) simp
  have l2: "last ((0 + of_nat (480 - 1) / 48)
        # map now_check (map (\<lambda>k. on_time_input (10 + of_nat k / 32)) [0..<320])) =
      10 + of_nat (320 - 1) / 32"
    by (simp only: progression_last) simp
  have l3: "last ((10 + of_nat (320 - 1) / 32)
        # map now_check (map (\<lambda>k. on_time_input (20 + of_nat k / 56)) [0..<560])) =
      20 + of_nat (560 - 1) / 56"
    by (simp only: progression_last) simp
  have "checks_in_time 0
     (map (\<lambda>k. on_time_input (0 + of_nat k / 48)) [0..<480]
      @ map (\<lambda>k. on_time_input (10 + of_nat k / 32)) [0..<320]
      @ map (\<lambda>k. on_time_input (20 + of_nat k / 56)) [0..<560]
      @ map (\<lambda>k. on_time_input (30 + of_nat k / 48)) [0..<241])"
    unfolding checks_in_time_append l1 l2 l3 using s1 s2 s3 s4 by blast
  then show ?thesis
    by (simp add: on_time_run_def)
qed

lemma on_time_run_ok:
  "list_all (\<lambda>i. running_flag i \<and> 0 \<le> send_clock_rc i \<and> 0 \<le> set_tempo_rc i) on_time_run"
  by (auto simp add: on_time_run_def list_all_iff on_time_input_def)

lemma on_time_run_last: "last (0 # map now_check on_time_run) = 35"
  by (simp add: on_time_run_def last_map)

lemma on_time_run_ends_at_35: "now_check (last on_time_run) = 35"
  by (simp add: on_time_run_def last_map)

lemma due_at_35: "entry_most_recently_due 35 = 120"
  using due_in_window [of 0 3 35] by (simp add: bpm_sequence_def)

lemma auto_main_loop_append:
  "snd (auto_main_loop xs st) = Still_running st' \<Longrightarrow>
     auto_main_loop (xs @ ys) st =
       (fst (auto_main_loop xs st) @ fst (auto_main_loop ys st'), snd (auto_main_loop ys st'))"
proof (induction xs arbitrary: st)
  case Nil
  then show ?case by simp
next
  case (Cons inp xs)
  show ?case
  proof (cases "running_flag inp")
    case False
    with Cons.prems show ?thesis by simp
  next
    case True
    show ?thesis
    proof (cases "snd (auto_loop_body inp st)")
      case (Continue st1)
      with True Cons.prems have "snd (auto_main_loop xs st1) = Still_running st'"
        by (simp add: auto_main_loop_Cons del: auto_main_loop.simps)
      from Cons.IH [OF this] True Continue show ?thesis
        by (simp add: auto_main_loop_Cons del: auto_main_loop.simps)
    next
      case (Break st1)
      with True Cons.prems show ?thesis
        by (simp add: auto_main_loop_Cons del: auto_main_loop.simps)
    next
      case (Raised e st1)
      with True Cons.prems show ?thesis
        by (simp add: auto_main_loop_Cons del: auto_main_loop.simps)
    qed
  qed
qed

lemma on_time_fields [simp]:
  "running_flag (on_time_input t)" "send_clock_rc (on_time_input t) = 0"
  "set_tempo_rc (on_time_input t) = 0" "now_slack (on_time_input t) = t"
  by (simp_all add: on_time_input_def)

lemma steady_pass:
  assumes "t < next_change_time st" and "next_tick_time st = t" and "0 < tick_interval st"
  shows "\<exists>st'. auto_loop_body (on_time_input t) st =
            (fst (auto_loop_body (on_time_input t) st), Continue st')
          \<and> sleeps (fst (auto_loop_body (on_time_input t) st)) = [tick_interval st]
          \<and> tempo_calls (fst (auto_loop_body (on_time_input t) st)) = []
          \<and> next_tick_time st' = t + tick_interval st
          \<and> tick_interval st' = tick_interval st
          \<and> current_bpm st' = current_bpm st
          \<and> seq_index st' = seq_index st
          \<and> next_change_time st' = next_change_time st"
proof -
  let ?inp = "on_time_input t"
  have chk: "tempo_change_check ?inp st = ([], Continue st)"
    using assms(1) by (simp add: tempo_check_not_due)
  have body: "auto_loop_body ?inp st = (fst (send_tick ?inp st), snd (send_tick ?inp st))"
    using chk by (simp add: auto_loop_body_via_check)
  have c: "continues (snd (send_tick ?inp st))"
    by (simp add: send_tick_continues)
  then obtain st' where st': "snd (send_tick ?inp st) = Continue st'"
    by (cases "snd (send_tick ?inp st)") simp_all
  have sl: "sleeps (fst (send_tick ?inp st)) = [tick_interval st]"
    using assms(2,3) by (simp add: send_tick_sleeps)
  have dl: "next_tick_time (result_state (snd (send_tick ?inp st))) = t + tick_interval st"
    using assms(2,3) by (simp add: send_tick_deadline)
  have f: "tick_interval st' = tick_interval st" "current_bpm st' = current_bpm st"
    "seq_index st' = seq_index st" "next_change_time st' = next_change_time st"
    using send_tick_tick_interval [of ?inp st] send_tick_tempo_fields [of ?inp st] st'
    by simp_all
  from body st' sl dl f show ?thesis
    by simp
qed

lemma change_pass:
  assumes "next_change_time st \<le> t" and "seq_index st < length bpm_sequence"
    and "iv = 60 / (of_int (bpm_sequence ! seq_index st) * 24)"
  shows "\<exists>st'. auto_loop_body (on_time_input t) st =
            (fst (auto_loop_body (on_time_input t) st), Continue st')
          \<and> sleeps (fst (auto_loop_body (on_time_input t) st)) = [iv]
          \<and> tempo_calls (fst (auto_loop_body (on_time_input t) st)) = [bpm_sequence ! seq_index st]
          \<and> next_tick_time st' = t + iv
          \<and> tick_interval st' = iv
          \<and> current_bpm st' = bpm_sequence ! seq_index st
          \<and> seq_index st' = (seq_index st + 1) mod length bpm_sequence
          \<and> next_change_time st' = next_change_time st + 10"
proof -
  let ?inp = "on_time_input t"
  let ?st1 = "advance_schedule t (st\<lparr>tick_interval := iv, current_bpm := bpm_sequence ! seq_index st\<rparr>)"
  have pos: "0 < iv"
    using assms(2,3) bpm_sequence_pos [of "seq_index st"] by simp
  have chk: "tempo_change_check ?inp st =
      ([Midi_set_tempo (bpm_sequence ! seq_index st),
        Print (Msg_tempo_changed (bpm_sequence ! seq_index st))], Continue ?st1)"
    using assms by (simp add: tempo_check_applied)
  have f1: "next_tick_time ?st1 = t" "tick_interval ?st1 = iv"
    "current_bpm ?st1 = bpm_sequence ! seq_index st"
    "seq_index ?st1 = (seq_index st + 1) mod length bpm_sequence"
    "next_change_time ?st1 = next_change_time st + 10"
    by (simp_all add: advance_schedule_def)
  have body: "auto_loop_body ?inp st =
      ([Midi_set_tempo (bpm_sequence ! seq_index st),
        Print (Msg_tempo_changed (bpm_sequence ! seq_index st))] @ fst (send_tick ?inp ?st1),
       snd (send_tick ?inp ?st1))"
    using chk by (simp add: auto_loop_body_via_check)
  have c: "continues (snd (send_tick ?inp ?st1))"
    by (simp add: send_tick_continues)
  then obtain st' where st': "snd (send_tick ?inp ?st1) = Continue st'"
    by (cases "snd (send_tick ?inp ?st1)") simp_all
  have sl: "sleeps (fst (send_tick ?inp ?st1)) = [iv]"
    using f1(1,2) pos by (simp add: send_tick_sleeps)
  have dl: "next_tick_time (result_state (snd (send_tick ?inp ?st1))) = t + iv"
    using f1(1,2) pos by (simp add: send_tick_deadline)
  have f: "tick_interval st' = iv" "current_bpm st' = bpm_sequence ! seq_index st"
    "seq_index st' = (seq_index st + 1) mod length bpm_sequence"
    "next_change_time st' = next_change_time st + 10"
    using send_tick_tick_interval [of ?inp ?st1] send_tick_tempo_fields [of ?inp ?st1] st' f1
    by simp_all
  from body st' sl dl f show ?thesis
    by simp
qed

lemma steady_segment:
  "0 < c \<Longrightarrow> tick_interval st = 1 / c \<Longrightarrow> next_tick_time st = a \<Longrightarrow>
   a + of_nat n / c \<le> next_change_time st \<Longrightarrow>
   \<exists>st'. snd (auto_main_loop (map (\<lambda>k. on_time_input (a + of_nat k / c)) [0..<n]) st) =
            Still_running st'
        \<and> sleeps (fst (auto_main_loop (map (\<lambda>k. on_time_input (a + of_nat k / c)) [0..<n]) st)) =
            replicate n (1 / c)
        \<and> tempo_calls (fst (auto_main_loop (map (\<lambda>k. on_time_input (a + of_nat k / c)) [0..<n]) st))
            = []
        \<and> next_tick_time st' = a + of_nat n / c
        \<and> tick_interval st' = 1 / c
        \<and> current_bpm st' = current_bpm st
        \<and> seq_index st' = seq_index st
        \<and> next_change_time st' = next_change_time st"
proof (induction n arbitrary: a st)
  case 0
  then show ?case by simp
next
  case (Suc n)
  let ?rest = "map (\<lambda>k. on_time_input (a + 1 / c + of_nat k / c)) [0..<n]"
  have split: "map (\<lambda>k. on_time_input (a + of_nat k / c)) [0..<Suc n] = on_time_input a # ?rest"
    by (simp add: map_upt_Suc add_divide_distrib add.assoc del: upt_Suc)
  have pos: "0 < tick_interval st"
    using Suc.prems(1,2) by simp
  have "a < a + of_nat (Suc n) / c"
    using Suc.prems(1) by simp
  with Suc.prems(4) have nd: "a < next_change_time st"
    by simp
  from steady_pass [OF nd Suc.prems(3) pos]
  obtain st1 where body: "auto_loop_body (on_time_input a) st =
        (fst (auto_loop_body (on_time_input a) st), Continue st1)"
    and sl: "sleeps (fst (auto_loop_body (on_time_input a) st)) = [tick_interval st]"
    and tc: "tempo_calls (fst (auto_loop_body (on_time_input a) st)) = []"
    and f: "next_tick_time st1 = a + tick_interval st" "tick_interval st1 = tick_interval st"
      "current_bpm st1 = current_bpm st" "seq_index st1 = seq_index st"
      "next_change_time st1 = next_change_time st"
    by blast
  have i1: "tick_interval st1 = 1 / c" and n1: "next_tick_time st1 = a + 1 / c"
    using f Suc.prems(2) by simp_all
  have b1: "a + 1 / c + of_nat n / c \<le> next_change_time st1"
    using Suc.prems(4) f(5) by (simp add: add_divide_distrib add.assoc add.commute)
  from Suc.IH [OF Suc.prems(1) i1 n1 b1]
  obtain st' where r: "snd (auto_main_loop ?rest st1) = Still_running st'"
    and rs: "sleeps (fst (auto_main_loop ?rest st1)) = replicate n (1 / c)"
    and rt: "tempo_calls (fst (auto_main_loop ?rest st1)) = []"
    and rf: "next_tick_time st' = a + 1 / c + of_nat n / c" "tick_interval st' = 1 / c"
      "current_bpm st' = current_bpm st1" "seq_index st' = seq_index st1"
      "next_change_time st' = next_change_time st1"
    by blast
  have st1: "snd (auto_loop_body (on_time_input a) st) = Continue st1"
    using body by (metis snd_conv)
  have loop: "auto_main_loop (on_time_input a # ?rest) st =
      (fst (auto_loop_body (on_time_input a) st) @ fst (auto_main_loop ?rest st1),
       snd (auto_main_loop ?rest st1))"
    using st1 by (simp add: auto_main_loop_Cons del: auto_main_loop.simps)
  have "next_tick_time st' = a + of_nat (Suc n) / c"
    using rf(1) by (simp add: add_divide_distrib add.assoc add.commute)
  with loop r rs rt rf f sl tc Suc.prems(2) show ?case
    unfolding split by simp
qed

lemma changed_segment:
  assumes "0 < c" and "1 / c = 60 / (of_int (bpm_sequence ! seq_index st) * 24)"
    and "seq_index st < length bpm_sequence"
    and "next_change_time st \<le> a" and "a + of_nat (Suc n) / c \<le> next_change_time st + 10"
  shows "\<exists>st'. snd (auto_main_loop (map (\<lambda>k. on_time_input (a + of_nat k / c)) [0..<Suc n]) st) =
            Still_running st'
        \<and> sleeps (fst (auto_main_loop (map (\<lambda>k. on_time_input (a + of_nat k / c)) [0..<Suc n]) st)) =
            replicate (Suc n) (1 / c)
        \<and> tempo_calls (fst (auto_main_loop (map (\<lambda>k. on_time_input (a + of_nat k / c)) [0..<Suc n]) st))
            = [bpm_sequence ! seq_index st]
        \<and> next_tick_time st' = a + of_nat (Suc n) / c
        \<and> tick_interval st' = 1 / c
        \<and> current_bpm st' = bpm_sequence ! seq_index st
        \<and> seq_index st' = (seq_index st + 1) mod length bpm_sequence
        \<and> next_change_time st' = next_change_time st + 10"
proof -
  let ?rest = "map (\<lambda>k. on_time_input (a + 1 / c + of_nat k / c)) [0..<n]"
  have split: "map (\<lambda>k. on_time_input (a + of_nat k / c)) [0..<Suc n] = on_time_input a # ?rest"
    by (simp add: map_upt_Suc add_divide_distrib add.assoc del: upt_Suc)
  from change_pass [OF assms(4,3,2)]
  obtain st1 where body: "auto_loop_body (on_time_input a) st =
        (fst (auto_loop_body (on_time_input a) st), Continue st1)"
    and sl: "sleeps (fst (auto_loop_body (on_time_input a) st)) = [1 / c]"
    and tc: "tempo_calls (fst (auto_loop_body (on_time_input a) st)) = [bpm_sequence ! seq_index st]"
    and f: "next_tick_time st1 = a + 1 / c" "tick_interval st1 = 1 / c"
      "current_bpm st1 = bpm_sequence ! seq_index st"
      "seq_index st1 = (seq_index st + 1) mod length bpm_sequence"
      "next_change_time st1 = next_change_time st + 10"
    by blast
  have b1: "a + 1 / c + of_nat n / c \<le> next_change_time st1"
    using assms(5) f(5) by (simp add: add_divide_distrib add.assoc add.commute)
  from steady_segment [OF assms(1) f(2) f(1) b1]
  obtain st' where r: "snd (auto_main_loop ?rest st1) = Still_running st'"
    and rs: "sleeps (fst (auto_main_loop ?rest st1)) = replicate n (1 / c)"
    and rt: "tempo_calls (fst (auto_main_loop ?rest st1)) = []"
    and rf: "next_tick_time st' = a + 1 / c + of_nat n / c" "tick_interval st' = 1 / c"
      "current_bpm st' = current_bpm st1" "seq_index st' = seq_index st1"
      "next_change_time st' = next_change_time st1"
    by blast
  have st1: "snd (auto_loop_body (on_time_input a) st) = Continue st1"
    using body by (metis snd_conv)
  have loop: "auto_main_loop (on_time_input a # ?rest) st =
      (fst (auto_loop_body (on_time_input a) st) @ fst (auto_main_loop ?rest st1),
       snd (auto_main_loop ?rest st1))"
    using st1 by (simp add: auto_main_loop_Cons del: auto_main_loop.simps)
  have "next_tick_time st' = a + of_nat (Suc n) / c"
    using rf(1) by (simp add: add_divide_distrib add.assoc add.commute)
  with loop r rs rt rf f sl tc show ?thesis
    unfolding split by simp
qed

lemma on_time_run_trace:
  "\<exists>st'. snd (auto_main_loop on_time_run (auto_initial_state su_ok (1 / 48))) = Still_running st'
     \<and> sleeps (fst (auto_main_loop on_time_run (auto_initial_state su_ok (1 / 48)))) =
         replicate 480 (1 / 48) @ replicate 320 (1 / 32) @ replicate 560 (1 / 56)
         @ replicate 241 (1 / 48)
     \<and> tempo_calls (fst (auto_main_loop on_time_run (auto_initial_state su_ok (1 / 48)))) =
         [80, 140, 120]
     \<and> current_bpm st' = 120
     \<and> next_tick_time st' = 35 + 1 / 48"
proof -
  let ?s0 = "auto_initial_state su_ok (1 / 48)"
  let ?A = "map (\<lambda>k. on_time_input (0 + of_nat k / 48)) [0..<480]"
  let ?B = "map (\<lambda>k. on_time_input (10 + of_nat k / 32)) [0..<Suc 319]"
  let ?C = "map (\<lambda>k. on_time_input (20 + of_nat k / 56)) [0..<Suc 559]"
  let ?D = "map (\<lambda>k. on_time_input (30 + of_nat k / 48)) [0..<Suc 240]"
  have n: "Suc 319 = 320" "Suc 559 = 560" "Suc 240 = 241"
    by simp_all
  have run: "on_time_run = ?A @ ?B @ ?C @ ?D"
    unfolding n by (simp add: on_time_run_def)
  have s0: "tick_interval ?s0 = 1 / 48" "next_tick_time ?s0 = 0" "next_change_time ?s0 = 10"
    "seq_index ?s0 = 0"
    by (simp_all add: auto_initial_state_def su_ok_def)
  have "0 + of_nat 480 / 48 \<le> next_change_time ?s0"
    by (simp add: s0)
  from steady_segment [OF _ s0(1) s0(2) this]
  obtain s1 where a: "snd (auto_main_loop ?A ?s0) = Still_running s1"
    and a_sl: "sleeps (fst (auto_main_loop ?A ?s0)) = replicate 480 (1 / 48)"
    and a_tc: "tempo_calls (fst (auto_main_loop ?A ?s0)) = []"
    and s1: "next_tick_time s1 = 0 + of_nat 480 / 48" "seq_index s1 = seq_index ?s0"
      "next_change_time s1 = next_change_time ?s0"
    by auto
  have s1': "seq_index s1 = 0" "next_change_time s1 = 10"
    using s1 s0 by simp_all
  have "(1::rat) / 32 = 60 / (of_int (bpm_sequence ! seq_index s1) * 24)"
    and "seq_index s1 < length bpm_sequence"
    and "next_change_time s1 \<le> 10"
    and "10 + of_nat (Suc 319) / 32 \<le> next_change_time s1 + 10"
    by (simp_all add: s1' bpm_sequence_def)
  from changed_segment [OF _ this]
  obtain s2 where b: "snd (auto_main_loop ?B s1) = Still_running s2"
    and b_sl: "sleeps (fst (auto_main_loop ?B s1)) = replicate (Suc 319) (1 / 32)"
    and b_tc: "tempo_calls (fst (auto_main_loop ?B s1)) = [bpm_sequence ! seq_index s1]"
    and s2: "seq_index s2 = (seq_index s1 + 1) mod length bpm_sequence"
      "next_change_time s2 = next_change_time s1 + 10"
    by auto
  have s2': "seq_index s2 = 1" "next_change_time s2 = 20"
    using s2 s1' by (simp_all add: bpm_sequence_def)
  have "(1::rat) / 56 = 60 / (of_int (bpm_sequence ! seq_index s2) * 24)"
    and "seq_index s2 < length bpm_sequence"
    and "next_change_time s2 \<le> 20"
    and "20 + of_nat (Suc 559) / 56 \<le> next_change_time s2 + 10"
    by (simp_all add: s2' bpm_sequence_def)
  from changed_segment [OF _ this]
  obtain s3 where c: "snd (auto_main_loop ?C s2) = Still_running s3"
    and c_sl: "sleeps (fst (auto_main_loop ?C s2)) = replicate (Suc 559) (1 / 56)"
    and c_tc: "tempo_calls (fst (auto_main_loop ?C s2)) = [bpm_sequence ! seq_index s2]"
    and s3: "seq_index s3 = (seq_index s2 + 1) mod length bpm_sequence"
      "next_change_time s3 = next_change_time s2 + 10"
    by auto
  have s3': "seq_index s3 = 2" "next_change_time s3 = 30"
    using s3 s2' by (simp_all add: bpm_sequence_def)
  have "(1::rat) / 48 = 60 / (of_int (bpm_sequence ! seq_index s3) * 24)"
    and "seq_index s3 < length bpm_sequence"
    and "next_change_time s3 \<le> 30"
    and "30 + of_nat (Suc 240) / 48 \<le> next_change_time s3 + 10"
    by (simp_all add: s3' bpm_sequence_def)
  from changed_segment [OF _ this]
  obtain s4 where d: "snd (auto_main_loop ?D s3) = Still_running s4"
    and d_sl: "sleeps (fst (auto_main_loop ?D s3)) = replicate (Suc 240) (1 / 48)"
    and d_tc: "tempo_calls (fst (auto_main_loop ?D s3)) = [bpm_sequence ! seq_index s3]"
    and s4: "current_bpm s4 = bpm_sequence ! seq_index s3"
      "next_tick_time s4 = 30 + of_nat (Suc 240) / 48"
    by auto
  have cd: "auto_main_loop (?C @ ?D) s2 =
      (fst (auto_main_loop ?C s2) @ fst (auto_main_loop ?D s3), snd (auto_main_loop ?D s3))"
    by (rule auto_main_loop_append [OF c])
  have bcd: "auto_main_loop (?B @ ?C @ ?D) s1 =
      (fst (auto_main_loop ?B s1) @ fst (auto_main_loop (?C @ ?D) s2),
       snd (auto_main_loop (?C @ ?D) s2))"
    by (rule auto_main_loop_append [OF b])
  have abcd: "auto_main_loop (?A @ ?B @ ?C @ ?D) ?s0 =
      (fst (auto_main_loop ?A ?s0) @ fst (auto_main_loop (?B @ ?C @ ?D) s1),
       snd (auto_main_loop (?B @ ?C @ ?D) s1))"
    by (rule auto_main_loop_append [OF a])
  have r1: "snd (auto_main_loop on_time_run ?s0) = Still_running s4"
    unfolding run abcd bcd cd using d by simp
  have r2: "sleeps (fst (auto_main_loop on_time_run ?s0)) =
      replicate 480 (1 / 48) @ replicate 320 (1 / 32) @ replicate 560 (1 / 56)
      @ replicate 241 (1 / 48)"
    unfolding run abcd bcd cd using a_sl b_sl c_sl d_sl
    by (simp only: fst_conv sleeps_append n)
  have r3: "tempo_calls (fst (auto_main_loop on_time_run ?s0)) = [80, 140, 120]"
    unfolding run abcd bcd cd using a_tc b_tc c_tc d_tc
    by (simp add: s1' s2' s3' bpm_sequence_def)
  have r4: "current_bpm s4 = 120" "next_tick_time s4 = 35 + 1 / 48"
    using s4 by (simp_all add: s3' bpm_sequence_def)
  from r1 r2 r3 r4 show ?thesis by blast
qed

lemma round_half_even_bounds:
  "of_int (round_half_even m) \<le> m + 1 / 2" "m - 1 / 2 \<le> of_int (round_half_even m)"
  unfolding round_half_even_def Let_def by (auto; linarith)+

lemma round_half_even_ge: "of_int N \<le> m \<Longrightarrow> N \<le> round_half_even m"
proof -
  assume "of_int N \<le> m"
  then have "N \<le> \<lfloor>m\<rfloor>" by (simp add: le_floor_iff)
  then show ?thesis unfolding round_half_even_def Let_def by auto
qed

lemma round_half_even_le: "m \<le> of_int N \<Longrightarrow> round_half_even m \<le> N"
proof (cases "m = of_int N")
  case True
  then show ?thesis by (simp add: round_half_even_def)
next
  case False
  assume "m \<le> of_int N"
  with False have "m < of_int N" by simp
  then have "\<lfloor>m\<rfloor> < N" by (simp add: floor_less_iff)
  then show ?thesis unfolding round_half_even_def Let_def by auto
qed

lemma two_powi_pos [simp]: "0 < (2::rat) powi k"
  by simp

lemma two_powi_mono: "i \<le> j \<Longrightarrow> (2::rat) powi i \<le> 2 powi j"
  by (rule power_int_increasing) simp_all

lemma two_powi_Suc: "(2::rat) powi (k + 1) = 2 * 2 powi k"
  by (simp add: power_int_add)

lemma binade_bounds:
  assumes "0 < a"
  shows "2 powi binade a \<le> a" and "a < 2 powi (binade a + 1)"
proof -
  obtain p q where pq: "quotient_of a = (p, q)" by (cases "quotient_of a")
  then have q: "0 < q" and a: "a = of_int p / of_int q"
    by (simp_all add: quotient_of_denom_pos quotient_of_div)
  from a assms q have p: "0 < p"
    by (simp add: zero_less_divide_iff)
  let ?d = "bitlen p - bitlen q"
  from bitlen_bounds [OF p] have pb: "2 ^ nat (bitlen p - 1) \<le> p" "p < 2 ^ nat (bitlen p)"
    by simp_all
  from bitlen_bounds [OF q] have qb: "2 ^ nat (bitlen q - 1) \<le> q" "q < 2 ^ nat (bitlen q)"
    by simp_all
  have lp: "1 \<le> bitlen p" and lq: "1 \<le> bitlen q"
    using p q by (simp_all add: bitlen_alt_def)
  have P1: "(2::rat) powi (bitlen p - 1) \<le> of_int p"
  proof -
    have "(of_int (2 ^ nat (bitlen p - 1)) :: rat) \<le> of_int p"
      using pb(1) by (simp only: of_int_le_iff)
    then show ?thesis using lp by (simp add: power_int_def)
  qed
  have P2: "of_int p < (2::rat) powi (bitlen p)"
  proof -
    have "(of_int p :: rat) < of_int (2 ^ nat (bitlen p))"
      using pb(2) by (simp only: of_int_less_iff)
    then show ?thesis using lp by (simp add: power_int_def)
  qed
  have Q1: "(2::rat) powi (bitlen q - 1) \<le> of_int q"
  proof -
    have "(of_int (2 ^ nat (bitlen q - 1)) :: rat) \<le> of_int q"
      using qb(1) by (simp only: of_int_le_iff)
    then show ?thesis using lq by (simp add: power_int_def)
  qed
  have Q2: "of_int q < (2::rat) powi (bitlen q)"
  proof -
    have "(of_int q :: rat) < of_int (2 ^ nat (bitlen q))"
      using qb(2) by (simp only: of_int_less_iff)
    then show ?thesis using lq by (simp add: power_int_def)
  qed
  have qpos: "(0::rat) < of_int q" and ppos: "(0::rat) < of_int p"
    using p q by simp_all
  have up: "a < 2 powi (?d + 1)"
  proof -
    have "a * of_int q = of_int p" using a qpos by simp
    also have "\<dots> < 2 powi (bitlen p)" by (rule P2)
    also have "\<dots> = 2 powi (?d + 1) * 2 powi (bitlen q - 1)"
      by (simp flip: power_int_add)
    also have "\<dots> \<le> 2 powi (?d + 1) * of_int q"
      using Q1 by (simp add: mult_left_mono)
    finally show ?thesis using qpos by simp
  qed
  have lo: "2 powi (?d - 1) < a"
  proof -
    have "(2::rat) powi (?d - 1) * of_int q < 2 powi (?d - 1) * 2 powi (bitlen q)"
      using Q2 by (simp add: mult_strict_left_mono)
    also have "\<dots> = 2 powi (bitlen p - 1)"
      by (simp flip: power_int_add)
    also have "\<dots> \<le> of_int p" by (rule P1)
    also have "\<dots> = a * of_int q" using a qpos by simp
    finally show ?thesis using qpos by simp
  qed
  have b: "binade a = (if 2 powi ?d \<le> a then ?d else ?d - 1)"
    by (simp add: binade_def pq)
  show "2 powi binade a \<le> a"
    using lo b by (auto simp add: less_imp_le)
  show "a < 2 powi (binade a + 1)"
    using up b by auto
qed

lemma binade_unique:
  assumes "0 < a" and "2 powi e \<le> a" and "a < 2 powi (e + 1)"
  shows "binade a = e"
proof (rule ccontr)
  assume ne: "binade a \<noteq> e"
  note b = binade_bounds [OF assms(1)]
  show False
  proof (cases "binade a < e")
    case True
    then have "(2::rat) powi (binade a + 1) \<le> 2 powi e" by (intro two_powi_mono) simp
    with b(2) assms(2) show False by simp
  next
    case False
    with ne have "e + 1 \<le> binade a" by simp
    then have "(2::rat) powi (e + 1) \<le> 2 powi binade a" by (rule two_powi_mono)
    with b(1) assms(3) show False by simp
  qed
qed

lemma round_half_even_tie_up:
  assumes "of_int N - 1 / 2 \<le> m" and "even N"
  shows "N \<le> round_half_even m"
proof (cases "of_int N \<le> m")
  case True
  then show ?thesis by (rule round_half_even_ge)
next
  case False
  then have "m < of_int N" by simp
  moreover from assms(1) have "of_int (N - 1) \<le> m" by simp
  ultimately have f: "\<lfloor>m\<rfloor> = N - 1"
    by (intro floor_unique) simp_all
  have "odd (N - 1)" using assms(2) by simp
  with f assms(1) show ?thesis
    unfolding round_half_even_def Let_def by auto
qed

lemma round_to_double_pos:
  assumes "0 < a"
  shows "round_to_double a =
    (if (2::rat) powi 1024 \<le> of_int (round_half_even (a / 2 powi max (binade a - 52) (- 1074)))
          * 2 powi max (binade a - 52) (- 1074)
     then PosInf
     else Finite (of_int (round_half_even (a / 2 powi max (binade a - 52) (- 1074)))
          * 2 powi max (binade a - 52) (- 1074)))"
  using assms by (simp add: round_to_double_def Let_def)

lemma round_error:
  assumes "0 < a" and "round_to_double a = Finite r"
  shows "\<bar>r - a\<bar> \<le> 2 powi max (binade a - 52) (- 1074) / 2"
proof -
  let ?k = "max (binade a - 52) (- 1074)"
  let ?n = "round_half_even (a / 2 powi ?k)"
  have r: "r = of_int ?n * 2 powi ?k"
    using assms by (simp add: round_to_double_pos split: if_splits)
  have "\<bar>of_int ?n - a / 2 powi ?k\<bar> \<le> 1 / 2"
    using round_half_even_bounds [of "a / 2 powi ?k"] by linarith
  then have "\<bar>of_int ?n - a / 2 powi ?k\<bar> * 2 powi ?k \<le> 1 / 2 * 2 powi ?k"
    by (rule mult_right_mono) simp
  moreover have "\<bar>of_int ?n - a / 2 powi ?k\<bar> * 2 powi ?k = \<bar>of_int ?n * 2 powi ?k - a\<bar>"
  proof -
    have "\<bar>of_int ?n - a / 2 powi ?k\<bar> * 2 powi ?k = \<bar>(of_int ?n - a / 2 powi ?k) * 2 powi ?k\<bar>"
      by (simp add: abs_mult)
    also have "(of_int ?n - a / 2 powi ?k) * 2 powi ?k = of_int ?n * 2 powi ?k - a"
      by (simp add: left_diff_distrib)
    finally show ?thesis .
  qed
  ultimately show ?thesis using r by simp
qed

lemma binade_lower:
  assumes "0 < a" and "2 powi e \<le> a"
  shows "e \<le> binade a"
proof (rule ccontr)
  assume "\<not> e \<le> binade a"
  then have "binade a + 1 \<le> e" by simp
  then have "(2::rat) powi (binade a + 1) \<le> 2 powi e" by (rule two_powi_mono)
  with binade_bounds(2) [OF assms(1)] assms(2) show False by simp
qed

lemma binade_upper:
  assumes "0 < a" and "a < 2 powi e"
  shows "binade a < e"
proof (rule ccontr)
  assume "\<not> binade a < e"
  then have "(2::rat) powi e \<le> 2 powi binade a" by (intro two_powi_mono) simp
  with binade_bounds(1) [OF assms(1)] assms(2) show False by simp
qed

lemma round_relative:
  assumes "2 powi (- 1023) \<le> a" and "round_to_double a = Finite r"
  shows "\<bar>r - a\<bar> \<le> a / 2 ^ 52"
proof -
  have pos: "0 < a"
    using assms(1) two_powi_pos [of "- 1023"] by (rule_tac less_le_trans)
  let ?e = "binade a"
  let ?k = "max (?e - 52) (- 1074)"
  have e: "- 1023 \<le> ?e"
    using pos assms(1) by (rule binade_lower)
  then have "?k - 1 \<le> ?e - 52" by simp
  then have "(2::rat) powi (?k - 1) \<le> 2 powi (?e - 52)" by (rule two_powi_mono)
  moreover have "(2::rat) powi (?k - 1) = 2 powi ?k / 2"
    by (simp add: power_int_diff)
  moreover have "(2::rat) powi (?e - 52) = 2 powi ?e / 2 ^ 52"
    by (simp add: power_int_diff)
  moreover have "2 powi ?e / 2 ^ 52 \<le> a / 2 ^ 52"
    using binade_bounds(1) [OF pos] by (simp add: divide_right_mono)
  ultimately have "2 powi ?k / 2 \<le> a / 2 ^ 52" by simp
  with round_error [OF pos assms(2)] show ?thesis by simp
qed

lemma round_finite:
  assumes "0 < a" and "a < 2 ^ 1024 - 2 ^ 970"
  shows "\<exists>r. round_to_double a = Finite r"
proof -
  let ?k = "max (binade a - 52) (- 1074)"
  let ?n = "round_half_even (a / 2 powi ?k)"
  have "a < 2 powi 1024" using assms(2) by simp
  with assms(1) have "binade a < 1024" by (rule binade_upper)
  then have "?k \<le> 971" by simp
  then have "(2::rat) powi ?k \<le> 2 powi 971" by (rule two_powi_mono)
  then have k: "(2::rat) powi ?k / 2 \<le> 2 ^ 970" by simp
  have "of_int ?n \<le> a / 2 powi ?k + 1 / 2"
    by (rule round_half_even_bounds)
  then have "of_int ?n * 2 powi ?k \<le> (a / 2 powi ?k + 1 / 2) * 2 powi ?k"
    by (rule mult_right_mono) simp
  also have "\<dots> = a + 2 powi ?k / 2"
    by (simp add: distrib_right)
  also have "\<dots> < 2 ^ 1024" using k assms(2) by simp
  finally have "\<not> (2::rat) powi 1024 \<le> of_int ?n * 2 powi ?k" by simp
  then show ?thesis
    using assms(1) by (simp add: round_to_double_pos)
qed

lemma round_overflow:
  assumes "2 ^ 1024 - 2 ^ 970 \<le> a"
  shows "round_to_double a = PosInf"
proof -
  have pos: "0 < a"
    using assms by (rule_tac less_le_trans [of _ "2 ^ 1024 - 2 ^ 970"]) simp_all
  let ?e = "binade a"
  let ?k = "max (?e - 52) (- 1074)"
  let ?n = "round_half_even (a / 2 powi ?k)"
  have "(2::rat) powi 1023 \<le> a" using assms by simp
  with pos have e: "1023 \<le> ?e" by (rule binade_lower)
  then have k: "?k = ?e - 52" by simp
  have "(2::rat) powi 1024 \<le> of_int ?n * 2 powi ?k"
  proof (cases "?e = 1023")
    case True
    then have k': "?k = 971" by simp
    have "of_int (2 ^ 53) - 1 / 2 \<le> a / 2 powi 971"
      using assms by (simp add: field_simps)
    then have "2 ^ 53 \<le> round_half_even (a / 2 powi 971)"
      by (rule round_half_even_tie_up) simp
    then have "(of_int (2 ^ 53) :: rat) \<le> of_int (round_half_even (a / 2 powi 971))"
      by (simp only: of_int_le_iff)
    then have "of_int (2 ^ 53) * (2::rat) powi 971
        \<le> of_int (round_half_even (a / 2 powi 971)) * 2 powi 971"
      by (rule mult_right_mono) simp
    then show ?thesis unfolding k' by simp
  next
    case False
    with e have e': "1024 \<le> ?e" by simp
    have "of_int (2 ^ 52) \<le> a / 2 powi ?k"
    proof -
      have "2 ^ 52 * 2 powi (?e - 52) = (2::rat) powi ?e"
        by (simp add: power_int_diff)
      then have "2 ^ 52 * 2 powi ?k \<le> a"
        using binade_bounds(1) [OF pos] k by simp
      then show ?thesis by (simp add: pos_le_divide_eq)
    qed
    then have "2 ^ 52 \<le> ?n" by (rule round_half_even_ge)
    then have n: "(of_int (2 ^ 52) :: rat) \<le> of_int ?n"
      by (simp only: of_int_le_iff)
    have "(2::rat) powi 1024 \<le> 2 powi ?e"
      using e' by (rule two_powi_mono)
    also have "\<dots> = of_int (2 ^ 52) * 2 powi ?k"
      unfolding k by (simp add: power_int_diff)
    also have "\<dots> \<le> of_int ?n * 2 powi ?k"
      using n by (rule mult_right_mono) simp
    finally show ?thesis .
  qed
  then show ?thesis
    using pos by (simp add: round_to_double_pos)
qed

lemma round_half_even_eval:
  assumes "\<bar>m - of_int n\<bar> < 1 / 2
      \<or> (m = of_int n + 1 / 2 \<and> even n) \<or> (m = of_int n - 1 / 2 \<and> even n)"
  shows "round_half_even m = n"
proof -
  consider (near) "\<bar>m - of_int n\<bar> < 1 / 2" | (up) "m = of_int n + 1 / 2" "even n"
    | (down) "m = of_int n - 1 / 2" "even n"
    using assms by blast
  then show ?thesis
  proof cases
    case near
    show ?thesis
    proof (cases "of_int n \<le> m")
      case True
      with near have "\<lfloor>m\<rfloor> = n" by (intro floor_unique) (simp_all add: abs_less_iff)
      with near True show ?thesis
        unfolding round_half_even_def Let_def by (auto simp add: abs_less_iff)
    next
      case False
      with near have "\<lfloor>m\<rfloor> = n - 1" by (intro floor_unique) (simp_all add: abs_less_iff)
      with near False show ?thesis
        unfolding round_half_even_def Let_def by (auto simp add: abs_less_iff)
    qed
  next
    case up
    then have "\<lfloor>m\<rfloor> = n" by (intro floor_unique) simp_all
    with up show ?thesis
      unfolding round_half_even_def Let_def by simp
  next
    case down
    then have "\<lfloor>m\<rfloor> = n - 1" by (intro floor_unique) simp_all
    with down show ?thesis
      unfolding round_half_even_def Let_def by simp
  qed
qed

lemma round_eval:
  assumes "0 < a" and "2 powi e \<le> a" and "a < 2 powi (e + 1)" and "- 1022 \<le> e"
    and "\<bar>a / 2 powi (e - 52) - of_int n\<bar> < 1 / 2
      \<or> (a / 2 powi (e - 52) = of_int n + 1 / 2 \<and> even n)
      \<or> (a / 2 powi (e - 52) = of_int n - 1 / 2 \<and> even n)"
    and "of_int n * (2::rat) powi (e - 52) < 2 powi 1024"
  shows "round_to_double a = Finite (of_int n * 2 powi (e - 52))"
proof -
  have e: "binade a = e" using assms(1-3) by (rule binade_unique)
  have k: "max (e - 52) (- 1074) = e - 52" using assms(4) by simp
  have n: "round_half_even (a / 2 powi (e - 52)) = n"
    using assms(5) by (rule round_half_even_eval)
  show ?thesis
    using assms(1,6) by (simp add: round_to_double_pos e k n)
qed

lemma rounding_1: "round_to_double (3) = Finite (3)"
  using round_eval [of "3" "1" 6755399441055744] by simp

lemma rounding_2: "round_to_double (1 / 20) = Finite (3602879701896397 / 72057594037927936)"
  using round_eval [of "1 / 20" "- 5" 7205759403792794] by simp

lemma rounding_3: "round_to_double (10808639105689191 / 9007199254740992) = Finite (1351079888211149 / 1125899906842624)"
  using round_eval [of "10808639105689191 / 9007199254740992" "0" 5404319552844596] by simp

lemma rounding_4: "round_to_double (1125899906842624 / 1351079888211149) = Finite (3752999689475413 / 4503599627370496)"
  using round_eval [of "1125899906842624 / 1351079888211149" "- 1" 7505999378950826] by simp

lemma rounding_5: "round_to_double (5 / 6) = Finite (7505999378950827 / 9007199254740992)"
  using round_eval [of "5 / 6" "- 1" 7505999378950827] by simp

lemma rounding_6: "round_to_double (80) = Finite (80)"
  using round_eval [of "80" "6" 5629499534213120] by simp

lemma rounding_7: "round_to_double (4 / 3) = Finite (6004799503160661 / 4503599627370496)"
  using round_eval [of "4 / 3" "0" 6004799503160661] by simp

lemma rounding_8: "round_to_double (18014398509481983 / 562949953421312) = Finite (32)"
  using round_eval [of "18014398509481983 / 562949953421312" "4" 9007199254740992] by simp

lemma rounding_9: "round_to_double (1 / 32) = Finite (1 / 32)"
  using round_eval [of "1 / 32" "- 5" 4503599627370496] by simp

lemma rounding_10: "round_to_double (120) = Finite (120)"
  using round_eval [of "120" "6" 8444249301319680] by simp

lemma rounding_11: "round_to_double (2) = Finite (2)"
  using round_eval [of "2" "1" 4503599627370496] by simp

lemma rounding_12: "round_to_double (48) = Finite (48)"
  using round_eval [of "48" "5" 6755399441055744] by simp

lemma rounding_13: "round_to_double (1 / 48) = Finite (6004799503160661 / 288230376151711744)"
  using round_eval [of "1 / 48" "- 6" 6004799503160661] by simp

lemma rounding_14: "round_to_double (140) = Finite (140)"
  using round_eval [of "140" "7" 4925812092436480] by simp

lemma rounding_15: "round_to_double (7 / 3) = Finite (5254199565265579 / 2251799813685248)"
  using round_eval [of "7 / 3" "1" 5254199565265579] by simp

lemma rounding_16: "round_to_double (15762598695796737 / 281474976710656) = Finite (56)"
  using round_eval [of "15762598695796737 / 281474976710656" "5" 7881299347898368] by simp

lemma rounding_17: "round_to_double (1 / 56) = Finite (2573485501354569 / 144115188075855872)"
  using round_eval [of "1 / 56" "- 6" 5146971002709138] by simp

lemma double_interval_3:
  "auto_calculate_tick_interval_double 3 = Inr (Finite (3752999689475413 / 4503599627370496))"
  by (simp add: auto_calculate_tick_interval_double_def float_of_int_def PPQN_def
      rounding_1 rounding_2 rounding_3 rounding_4)

lemma double_interval_80:
  "auto_calculate_tick_interval_double 80 = Inr (Finite (1 / 32))"
  by (simp add: auto_calculate_tick_interval_double_def float_of_int_def PPQN_def
      rounding_6 rounding_7 rounding_8 rounding_9)

lemma double_interval_120:
  "auto_calculate_tick_interval_double 120 = Inr (Finite (6004799503160661 / 288230376151711744))"
  by (simp add: auto_calculate_tick_interval_double_def float_of_int_def PPQN_def
      rounding_10 rounding_11 rounding_12 rounding_13)

lemma double_interval_140:
  "auto_calculate_tick_interval_double 140 = Inr (Finite (2573485501354569 / 144115188075855872))"
  by (simp add: auto_calculate_tick_interval_double_def float_of_int_def PPQN_def
      rounding_14 rounding_15 rounding_16 rounding_17)

lemma round_below_overflow:
  assumes "0 < a" and "round_to_double a = Finite r"
  shows "r < 2 ^ 1024"
  using assms by (simp add: round_to_double_pos split: if_splits)

lemma round_relative_bounds:
  assumes "2 powi (- 1023) \<le> a" and "round_to_double a = Finite r"
  shows "a - a / 2 ^ 52 \<le> r" and "r \<le> a + a / 2 ^ 52"
  using round_relative [OF assms] by linarith+

lemma double_interval_bound:
  assumes "0 < bpm" and "of_int bpm < (2::rat) ^ 1024 - 2 ^ 970"
  shows "\<exists>r. auto_calculate_tick_interval_double bpm = Inr (Finite r) \<and> 0 < r
           \<and> \<bar>r - 60 / (of_int bpm * 24)\<bar> \<le> 60 / (of_int bpm * 24) / 2 ^ 49"
proof -
  define x :: rat where "x = of_int bpm"
  have x1: "1 \<le> x" using assms(1) by (simp add: x_def)
  have xlt: "x < 2 ^ 1024 - 2 ^ 970" using assms(2) by (simp add: x_def)
  have small: "(2::rat) powi (- 1023) \<le> 1 / 4" by simp
  \<comment> \<open>the conversion of \<open>bpm\<close>\<close>
  obtain b where b: "round_to_double x = Finite b"
    using round_finite [of x] x1 xlt by auto
  have bn: "2 powi (- 1023) \<le> x" using small x1 by linarith
  note bb = round_relative_bounds [OF bn b]
  have blt: "b < 2 ^ 1024" using b x1 by (intro round_below_overflow [of x]) simp_all
  have b_lo: "1 / 2 \<le> b" using bb(1) x1 by simp
  \<comment> \<open>\<open>bpm / 60.0\<close>\<close>
  have a1_rng: "0 < b / 60" "b / 60 < 2 ^ 1024 - 2 ^ 970" "2 powi (- 1023) \<le> b / 60"
    using b_lo blt by simp_all
  obtain q where q: "round_to_double (b / 60) = Finite q"
    using round_finite [OF a1_rng(1,2)] by auto
  note qq = round_relative_bounds [OF a1_rng(3) q]
  have q_lo: "1 / 240 \<le> q" using qq(1) b_lo by simp
  have q_hi: "q < 2 ^ 1024 / 59" using qq(2) blt by simp
  \<comment> \<open>\<open>* PPQN\<close>\<close>
  have a2_rng: "0 < q * 24" "q * 24 < 2 ^ 1024 - 2 ^ 970" "2 powi (- 1023) \<le> q * 24"
    using q_lo q_hi by simp_all
  obtain t where t: "round_to_double (q * 24) = Finite t"
    using round_finite [OF a2_rng(1,2)] by auto
  note tt = round_relative_bounds [OF a2_rng(3) t]
  have t_lo: "1 / 20 \<le> t" using tt(1) q_lo by simp
  have t_hi: "t \<le> 2 ^ 1023" using tt(2) q_hi by simp
  have t_pos: "0 < t" using t_lo by simp
  \<comment> \<open>\<open>1.0 / ticks_per_second\<close>\<close>
  have a3_lo: "2 powi (- 1023) \<le> 1 / t"
  proof -
    have "inverse (2 ^ 1023) \<le> inverse t"
      using t_hi t_pos by (rule le_imp_inverse_le)
    then show ?thesis by (simp add: power_int_minus inverse_eq_divide)
  qed
  have a3_hi: "1 / t \<le> 20"
  proof -
    have "inverse t \<le> inverse (1 / 20)"
      using t_lo by (rule le_imp_inverse_le) simp
    then show ?thesis by (simp add: inverse_eq_divide)
  qed
  have a3_rng: "0 < 1 / t" "1 / t < 2 ^ 1024 - 2 ^ 970"
    using t_pos a3_hi by simp_all
  obtain r where r: "round_to_double (1 / t) = Finite r"
    using round_finite [OF a3_rng] by auto
  note rr = round_relative_bounds [OF a3_lo r]
  have val: "auto_calculate_tick_interval_double bpm = Inr (Finite r)"
    using b q t r t_pos
    by (simp add: auto_calculate_tick_interval_double_def float_of_int_def PPQN_def x_def)
  \<comment> \<open>the accumulated error\<close>
  define y where "y = inverse x"
  have y_pos: "0 < y" using x1 by (simp add: y_def)
  have x_pos: "0 < x" using x1 by simp
  define w :: rat where "w = 1 - 1 / 2 ^ 52"
  define v :: rat where "v = 1 + 1 / 2 ^ 52"
  have w_pos: "0 < w" and v_pos: "0 < v" by (simp_all add: w_def v_def)
  define L :: rat where "L = 2 / 5 * (w * (w * w))"
  define U :: rat where "U = 2 / 5 * (v * (v * v))"
  have L_pos: "0 < L" and U_pos: "0 < U"
    using w_pos v_pos by (simp_all add: L_def U_def)
  have b_w: "w * x \<le> b" and b_v: "b \<le> v * x"
    using bb by (simp_all add: w_def v_def)
  have q_w: "w * (b / 60) \<le> q" and q_v: "q \<le> v * (b / 60)"
    using qq by (simp_all add: w_def v_def)
  have t_w: "w * (q * 24) \<le> t" and t_v: "t \<le> v * (q * 24)"
    using tt by (simp_all add: w_def v_def)
  have t_L: "L * x \<le> t"
  proof -
    have "w * (w * x) \<le> w * b"
      using b_w w_pos by (intro mult_left_mono) simp_all
    then have "w * (w * (w * x)) \<le> w * (w * b)"
      using w_pos by (intro mult_left_mono) simp_all
    then have "2 / 5 * (w * (w * (w * x))) \<le> 2 / 5 * (w * (w * b))"
      by (rule mult_left_mono) simp
    also have "\<dots> = w * (w * (b / 60) * 24)"
      by simp
    also have "\<dots> \<le> w * (q * 24)"
      using q_w w_pos by (intro mult_left_mono mult_right_mono) simp_all
    also have "\<dots> \<le> t" by (rule t_w)
    finally show ?thesis by (simp add: L_def mult.assoc)
  qed
  have t_U: "t \<le> U * x"
  proof -
    have "v * b \<le> v * (v * x)"
      using b_v v_pos by (intro mult_left_mono) simp_all
    then have "v * (v * b) \<le> v * (v * (v * x))"
      using v_pos by (intro mult_left_mono) simp_all
    then have le: "2 / 5 * (v * (v * b)) \<le> 2 / 5 * (v * (v * (v * x)))"
      by (rule mult_left_mono) simp
    have "t \<le> v * (q * 24)" by (rule t_v)
    also have "\<dots> \<le> v * (v * (b / 60) * 24)"
      using q_v v_pos by (intro mult_left_mono mult_right_mono) simp_all
    also have "\<dots> = 2 / 5 * (v * (v * b))"
      by simp
    also note le
    finally show ?thesis by (simp add: U_def mult.assoc)
  qed
  have inv_hi: "inverse t \<le> inverse L * y"
  proof -
    have "inverse t \<le> inverse (L * x)"
      using t_L by (rule le_imp_inverse_le) (simp add: L_pos x_pos)
    then show ?thesis by (simp add: y_def)
  qed
  have inv_lo: "inverse U * y \<le> inverse t"
  proof -
    have "inverse (U * x) \<le> inverse t"
      using t_U t_pos by (rule le_imp_inverse_le)
    then show ?thesis by (simp add: y_def)
  qed
  have T: "60 / (of_int bpm * 24) = 5 / 2 * y"
    by (simp add: y_def x_def inverse_eq_divide)
  have c_hi: "(1 + 1 / 2 ^ 52) * inverse L \<le> 5 / 2 * (1 + 1 / 2 ^ 49)"
    by (simp add: L_def w_def)
  have c_lo: "5 / 2 * (1 - 1 / 2 ^ 49) \<le> (1 - 1 / 2 ^ 52) * inverse U"
    by (simp add: U_def v_def)
  have r_hi: "r \<le> 5 / 2 * (1 + 1 / 2 ^ 49) * y"
  proof -
    have "r \<le> (1 + 1 / 2 ^ 52) * inverse t"
      using rr(2) by (simp add: inverse_eq_divide)
    also have "\<dots> \<le> (1 + 1 / 2 ^ 52) * (inverse L * y)"
      using inv_hi by (intro mult_left_mono) simp_all
    also have "\<dots> = ((1 + 1 / 2 ^ 52) * inverse L) * y"
      by (simp only: mult.assoc)
    also have "\<dots> \<le> (5 / 2 * (1 + 1 / 2 ^ 49)) * y"
      using c_hi y_pos by (intro mult_right_mono) simp_all
    finally show ?thesis .
  qed
  have r_lo: "5 / 2 * (1 - 1 / 2 ^ 49) * y \<le> r"
  proof -
    have "(5 / 2 * (1 - 1 / 2 ^ 49)) * y \<le> ((1 - 1 / 2 ^ 52) * inverse U) * y"
      using c_lo y_pos by (intro mult_right_mono) simp_all
    also have "\<dots> = (1 - 1 / 2 ^ 52) * (inverse U * y)"
      by (simp only: mult.assoc)
    also have "\<dots> \<le> (1 - 1 / 2 ^ 52) * inverse t"
      using inv_lo by (intro mult_left_mono) simp_all
    also have "\<dots> \<le> r"
      using rr(1) by (simp add: inverse_eq_divide)
    finally show ?thesis .
  qed
  have r_pos: "0 < r"
  proof -
    have "0 < 5 / 2 * (1 - 1 / 2 ^ 49) * y" using y_pos by simp
    with r_lo show ?thesis by simp
  qed
  have "\<bar>r - 60 / (of_int bpm * 24)\<bar> \<le> 60 / (of_int bpm * 24) / 2 ^ 49"
    unfolding T
  proof (rule abs_leI)
    show "r - 5 / 2 * y \<le> 5 / 2 * y / 2 ^ 49"
      using r_hi by (simp add: field_simps)
    show "- (r - 5 / 2 * y) \<le> 5 / 2 * y / 2 ^ 49"
      using r_lo by (simp add: field_simps)
  qed
  with val r_pos show ?thesis by blast
qed

lemma double_interval_overflow:
  assumes "(2::rat) ^ 1024 - 2 ^ 970 \<le> of_int bpm"
  shows "auto_calculate_tick_interval_double bpm = Inl OverflowError"
  using round_overflow [OF assms]
  by (simp add: auto_calculate_tick_interval_double_def float_of_int_def)

subsection \<open>The tick interval\<close>

text \<open>
  C8, as stated, fails. For \<open>bpm = 3\<close> the calculator of
  \<^verbatim>\<open>debugAutomaticClock.py\<close> returns the double 0.8333333333333333
  (3752999689475413 / 2^52). That is not 60 / (3 * 24) = 5/6, and it is not the double
  nearest to 5/6 either, which is 0.8333333333333334 (7505999378950827 / 2^53) and is
  what Python's \<^verbatim>\<open>60 / (3 * 24)\<close> gives: the three operations of the function round
  one after another. For \<open>bpm = 2 ^ 1024\<close> the function raises
  \<^verbatim>\<open>OverflowError\<close> and returns nothing.
\<close>

theorem tick_interval_not_exact_at_3:
  "auto_calculate_tick_interval_double 3 = Inr (Finite (3752999689475413 / 4503599627370496))
   \<and> (3752999689475413 / 4503599627370496 :: rat) \<noteq> 60 / (3 * 24)
   \<and> round_to_double (60 / (3 * 24)) = Finite (7505999378950827 / 9007199254740992)
   \<and> (3752999689475413 / 4503599627370496 :: rat) \<noteq> 7505999378950827 / 9007199254740992
   \<and> auto_calculate_tick_interval_double (2 ^ 1024) = Inl OverflowError"
proof -
  have "auto_calculate_tick_interval_double (2 ^ 1024) = Inl OverflowError"
    by (rule double_interval_overflow) simp
  then show ?thesis
    by (simp add: double_interval_3 rounding_5)
qed

text \<open>
  C8, amended. For every \<open>bpm > 0\<close> that converts to a float (\<open>bpm < 2^1024 - 2^970\<close>)
  the tick-interval calculator raises nothing and returns a strictly positive double
  that is 60 / (bpm * 24) seconds up to the rounding of its floating-point operations:
  the relative error is at most \<open>2^-49\<close>. For a larger \<open>bpm\<close> it raises
  \<^verbatim>\<open>OverflowError\<close>. For the tempos the program runs at (\<^verbatim>\<open>BPM\<close> = 120 and the
  schedule's 80, 140, 120) the result is exactly the double nearest to 60 / (bpm * 24);
  so is the result of the calculator of \<^verbatim>\<open>clock.py\<close>. Both are functions of their
  argument alone.
\<close>

theorem tick_interval_up_to_rounding:
  assumes "0 < bpm"
  shows "(of_int bpm < (2::rat) ^ 1024 - 2 ^ 970 \<longrightarrow>
            (\<exists>r. auto_calculate_tick_interval_double bpm = Inr (Finite r) \<and> 0 < r
               \<and> \<bar>r - 60 / (of_int bpm * 24)\<bar> \<le> 60 / (of_int bpm * 24) / 2 ^ 49))
       \<and> ((2::rat) ^ 1024 - 2 ^ 970 \<le> of_int bpm \<longrightarrow>
            auto_calculate_tick_interval_double bpm = Inl OverflowError)
       \<and> (bpm = BPM \<or> bpm \<in> set bpm_sequence \<longrightarrow>
            auto_calculate_tick_interval_double bpm =
              Inr (round_to_double (60 / (of_int bpm * 24))))
       \<and> clock_calculate_tick_interval_double =
            Inr (round_to_double (60 / (of_int BPM * 24)))"
proof (intro conjI impI)
  assume "of_int bpm < (2::rat) ^ 1024 - 2 ^ 970"
  with assms show "\<exists>r. auto_calculate_tick_interval_double bpm = Inr (Finite r) \<and> 0 < r
      \<and> \<bar>r - 60 / (of_int bpm * 24)\<bar> \<le> 60 / (of_int bpm * 24) / 2 ^ 49"
    by (rule double_interval_bound)
next
  assume "(2::rat) ^ 1024 - 2 ^ 970 \<le> of_int bpm"
  then show "auto_calculate_tick_interval_double bpm = Inl OverflowError"
    by (rule double_interval_overflow)
next
  assume "bpm = BPM \<or> bpm \<in> set bpm_sequence"
  then consider "bpm = 120" | "bpm = 80" | "bpm = 140"
    by (auto simp add: BPM_def bpm_sequence_def)
  then show "auto_calculate_tick_interval_double bpm =
      Inr (round_to_double (60 / (of_int bpm * 24)))"
  proof cases
    case 1
    then show ?thesis by (simp add: double_interval_120 rounding_13)
  next
    case 2
    then show ?thesis by (simp add: double_interval_80 rounding_9)
  next
    case 3
    then show ?thesis by (simp add: double_interval_140 rounding_17)
  qed
next
  have "clock_calculate_tick_interval_double = auto_calculate_tick_interval_double BPM"
    by (simp add: clock_calculate_tick_interval_double_def auto_calculate_tick_interval_double_def)
  then show "clock_calculate_tick_interval_double =
      Inr (round_to_double (60 / (of_int BPM * 24)))"
    by (simp add: BPM_def double_interval_120 rounding_13)
qed

theorem tick_interval_up_to_rounding_witness:
  "(0::int) < 3 \<and> of_int (3::int) < (2::rat) ^ 1024 - 2 ^ 970
   \<and> auto_calculate_tick_interval_double 3 = Inr (Finite (3752999689475413 / 4503599627370496))
   \<and> (0::rat) < 3752999689475413 / 4503599627370496
   \<and> \<bar>3752999689475413 / 4503599627370496 - 60 / (of_int (3::int) * 24)\<bar>
       \<le> (60 / (of_int (3::int) * 24) / 2 ^ 49 :: rat)
   \<and> (80::int) \<in> set bpm_sequence
   \<and> auto_calculate_tick_interval_double 80 = Inr (Finite (1 / 32))
   \<and> round_to_double (60 / (of_int (80::int) * 24)) = Finite (1 / 32)"
proof -
  have h: "(0::int) < 3" "of_int (3::int) < (2::rat) ^ 1024 - 2 ^ 970"
    by simp_all
  note t = tick_interval_up_to_rounding [OF h(1)]
  from t h(2) obtain r where r: "auto_calculate_tick_interval_double 3 = Inr (Finite r)"
    and pos: "0 < r"
    and err: "\<bar>r - 60 / (of_int (3::int) * 24)\<bar> \<le> 60 / (of_int (3::int) * 24) / 2 ^ 49"
    by blast
  from r have v: "r = 3752999689475413 / 4503599627370496"
    by (simp add: double_interval_3)
  have m: "(80::int) \<in> set bpm_sequence"
    by (simp add: bpm_sequence_def)
  have e: "auto_calculate_tick_interval_double 80 = Inr (Finite (1 / 32))"
    by (rule double_interval_80)
  from tick_interval_up_to_rounding [of 80] m e
  have "Inr (round_to_double (60 / (of_int (80::int) * 24))) = (Inr (Finite (1 / 32)) :: py_error + pyfloat)"
    by simp
  then have n: "round_to_double (60 / (of_int (80::int) * 24)) = Finite (1 / 32)"
    by simp
  from h r pos err m e n show ?thesis
    unfolding v by blast
qed

subsection \<open>The tempo check\<close>

text \<open>
  C2, as stated, fails. In the state \<open>state_before_change\<close> (deadline and first change
  at 10 s) the pass at 10.001 s whose \<^verbatim>\<open>midi_set_tempo\<close> fails leaves the tempo check
  with \<^verbatim>\<open>next_tick_time\<close> = 10.001 instead of 10: line 132 stands after the
  \<^verbatim>\<open>if\<close>/\<^verbatim>\<open>else\<close> on the result of \<^verbatim>\<open>midi_set_tempo\<close>, not inside its
  \<^verbatim>\<open>else\<close> branch.
\<close>

theorem failed_change_still_resyncs:
  "next_change_time state_before_change \<le> now_check failed_change_input
   \<and> set_tempo_rc failed_change_input < 0
   \<and> next_tick_time state_before_change = 10
   \<and> fst (tempo_change_check failed_change_input state_before_change) =
       [Midi_set_tempo 80, Print (Msg_tempo_warning 80)]
   \<and> continues (snd (tempo_change_check failed_change_input state_before_change))
   \<and> next_tick_time (result_state (snd (tempo_change_check failed_change_input state_before_change)))
       = 10001 / 1000"
  by (simp add: tempo_change_check_def Let_def failed_change_input_def state_before_change_def
      bpm_sequence_def advance_schedule_def)

text \<open>
  C2, amended. The tempo check changes \<^verbatim>\<open>next_tick_time\<close> exactly in the passes in
  which a schedule entry is due: then it sets it to \<^verbatim>\<open>now\<close>, whether
  \<^verbatim>\<open>midi_set_tempo\<close> succeeded or failed; in a pass with no entry due the check
  changes nothing and does nothing.
\<close>

theorem resync_on_every_due_entry:
  assumes "seq_index st < length bpm_sequence"
  shows "(next_change_time st \<le> now_check inp \<longrightarrow>
            continues (snd (tempo_change_check inp st))
            \<and> next_tick_time (result_state (snd (tempo_change_check inp st))) = now_check inp)
       \<and> (now_check inp < next_change_time st \<longrightarrow>
            tempo_change_check inp st = ([], Continue st))"
proof (intro conjI impI)
  assume due: "next_change_time st \<le> now_check inp"
  show "continues (snd (tempo_change_check inp st))"
    using due assms
    by (cases "set_tempo_rc inp < 0") (simp_all add: tempo_check_failed tempo_check_applied)
  show "next_tick_time (result_state (snd (tempo_change_check inp st))) = now_check inp"
    using due assms
    by (cases "set_tempo_rc inp < 0")
      (simp_all add: tempo_check_failed tempo_check_applied advance_schedule_def)
next
  assume "now_check inp < next_change_time st"
  then show "tempo_change_check inp st = ([], Continue st)"
    by (rule tempo_check_not_due)
qed

theorem resync_on_every_due_entry_witness:
  "seq_index state_before_change < length bpm_sequence
   \<and> next_change_time state_before_change \<le> now_check failed_change_input
   \<and> set_tempo_rc failed_change_input < 0
   \<and> continues (snd (tempo_change_check failed_change_input state_before_change))
   \<and> next_tick_time (result_state (snd (tempo_change_check failed_change_input state_before_change)))
       = 10001 / 1000"
  using resync_on_every_due_entry [of state_before_change failed_change_input]
  by (simp add: failed_change_input_def state_before_change_def bpm_sequence_def)

text \<open>
  C5. In a pass in which a schedule entry is due and \<^verbatim>\<open>midi_set_tempo\<close> fails, the
  tempo check calls \<^verbatim>\<open>midi_set_tempo\<close> once and prints the warning; after it
  \<^verbatim>\<open>current_bpm\<close> and \<^verbatim>\<open>tick_interval\<close> are what they were, the schedule index
  has moved on by one modulo the length of the schedule, and the next change is due ten
  seconds after the one missed. The loop goes on: if the clock message can be sent, the
  pass sends it (once) and ends without leaving the loop, tempo and interval unchanged.
\<close>

theorem failed_set_tempo_keeps_tempo:
  assumes "next_change_time st \<le> now_check inp"
    and "seq_index st < length bpm_sequence"
    and "set_tempo_rc inp < 0"
  shows "fst (tempo_change_check inp st) =
            [Midi_set_tempo (bpm_sequence ! seq_index st),
             Print (Msg_tempo_warning (bpm_sequence ! seq_index st))]
       \<and> continues (snd (tempo_change_check inp st))
       \<and> current_bpm (result_state (snd (tempo_change_check inp st))) = current_bpm st
       \<and> tick_interval (result_state (snd (tempo_change_check inp st))) = tick_interval st
       \<and> seq_index (result_state (snd (tempo_change_check inp st)))
           = (seq_index st + 1) mod length bpm_sequence
       \<and> next_change_time (result_state (snd (tempo_change_check inp st)))
           = next_change_time st + 10
       \<and> (0 \<le> send_clock_rc inp \<longrightarrow>
            continues (snd (auto_loop_body inp st))
            \<and> count_list (fst (auto_loop_body inp st)) Midi_send_clock = 1
            \<and> current_bpm (result_state (snd (auto_loop_body inp st))) = current_bpm st
            \<and> tick_interval (result_state (snd (auto_loop_body inp st))) = tick_interval st)"
  using assms
  by (simp add: tempo_check_failed advance_schedule_def auto_loop_body_def send_tick_ok
      count_tick_def wait_or_resync_def Let_def)

theorem failed_set_tempo_keeps_tempo_witness:
  "next_change_time state_before_change \<le> now_check failed_change_input
   \<and> seq_index state_before_change < length bpm_sequence
   \<and> set_tempo_rc failed_change_input < 0
   \<and> 0 \<le> send_clock_rc failed_change_input
   \<and> fst (tempo_change_check failed_change_input state_before_change) =
        [Midi_set_tempo 80, Print (Msg_tempo_warning 80)]
   \<and> current_bpm (result_state (snd (auto_loop_body failed_change_input state_before_change))) = 120
   \<and> tick_interval (result_state (snd (auto_loop_body failed_change_input state_before_change)))
        = 1 / 48
   \<and> seq_index (result_state (snd (tempo_change_check failed_change_input state_before_change))) = 1
   \<and> next_change_time (result_state (snd (tempo_change_check failed_change_input state_before_change)))
        = 20"
  using failed_set_tempo_keeps_tempo [of state_before_change failed_change_input]
  by (simp add: failed_change_input_def state_before_change_def bpm_sequence_def)

text \<open>
  C4. In a pass in which a schedule entry is due and \<^verbatim>\<open>midi_set_tempo\<close> succeeds,
  the tempo check leaves \<^verbatim>\<open>next_tick_time\<close> at \<^verbatim>\<open>now\<close>, with the new tempo and
  its interval \<open>iv\<close> in place. Line 148 then puts the deadline of the next tick at
  \<^verbatim>\<open>now\<close> + \<open>iv\<close>: one interval of the new tempo after the instant of this
  pass, with no share of the old interval or of the old deadline. If the clock message
  can be sent, the pass sleeps until that deadline when it lies ahead, and ends with that
  deadline unless the pass itself ran more than one new interval late (the
  resynchronisation of lines 153-157).
\<close>

theorem applied_change_resyncs:
  assumes "next_change_time st \<le> now_check inp"
    and "seq_index st < length bpm_sequence"
    and "0 \<le> set_tempo_rc inp"
    and "new_bpm = bpm_sequence ! seq_index st"
    and "iv = 60 / (of_int new_bpm * 24)"
    and "st1 = result_state (snd (tempo_change_check inp st))"
  shows "continues (snd (tempo_change_check inp st))
       \<and> next_tick_time st1 = now_check inp
       \<and> current_bpm st1 = new_bpm
       \<and> auto_calculate_tick_interval new_bpm = Inr iv
       \<and> tick_interval st1 = iv
       \<and> next_tick_time (advance_deadline (snd (count_tick inp st1))) = now_check inp + iv
       \<and> (0 \<le> send_clock_rc inp \<longrightarrow>
            continues (snd (auto_loop_body inp st))
            \<and> sleeps (fst (auto_loop_body inp st)) =
                (if 0 < now_check inp + iv - now_slack inp
                 then [now_check inp + iv - now_slack inp] else [])
            \<and> next_tick_time (result_state (snd (auto_loop_body inp st))) =
                (if now_check inp + iv - now_slack inp \<le> 0
                    \<and> now_check inp + iv - now_slack inp < - iv
                 then now_resync inp else now_check inp + iv))"
proof -
  have chk: "tempo_change_check inp st =
     ([Midi_set_tempo new_bpm, Print (Msg_tempo_changed new_bpm)],
      Continue (advance_schedule (now_check inp)
        (st\<lparr>tick_interval := iv, current_bpm := new_bpm\<rparr>)))"
    using assms(1-5) by (simp add: tempo_check_applied)
  have st1: "st1 = advance_schedule (now_check inp) (st\<lparr>tick_interval := iv, current_bpm := new_bpm\<rparr>)"
    using chk assms(6) by simp
  have f: "next_tick_time st1 = now_check inp" "tick_interval st1 = iv" "current_bpm st1 = new_bpm"
    by (simp_all add: st1 advance_schedule_def)
  have body: "auto_loop_body inp st =
     ([Midi_set_tempo new_bpm, Print (Msg_tempo_changed new_bpm)] @ fst (send_tick inp st1),
      snd (send_tick inp st1))"
    using chk st1 by (simp add: auto_loop_body_via_check)
  have iv: "auto_calculate_tick_interval new_bpm = Inr iv"
    using assms(2,4,5) by (simp add: bpm_sequence_interval)
  show ?thesis
    using chk f iv
    by (simp add: body send_tick_continues send_tick_sleeps send_tick_deadline)
qed

theorem applied_change_resyncs_witness:
  "next_change_time state_before_change \<le> now_check applied_change_input
   \<and> seq_index state_before_change < length bpm_sequence
   \<and> 0 \<le> set_tempo_rc applied_change_input
   \<and> 0 \<le> send_clock_rc applied_change_input
   \<and> next_tick_time (result_state (snd (tempo_change_check applied_change_input state_before_change)))
       = 10001 / 1000
   \<and> auto_calculate_tick_interval 80 = Inr (1 / 32)
   \<and> sleeps (fst (auto_loop_body applied_change_input state_before_change)) = [1 / 32]
   \<and> next_tick_time (result_state (snd (auto_loop_body applied_change_input state_before_change)))
       = 10001 / 1000 + 1 / 32"
  using applied_change_resyncs [of state_before_change applied_change_input,
      OF _ _ _ refl refl refl]
  by (simp add: applied_change_input_def state_before_change_def bpm_sequence_def)

subsection \<open>The sleep\<close>

text \<open>
  C6. The text shared by both loops. With \<open>slack\<close> the new deadline minus the clock
  reading: a pass whose clock message was sent goes on to the next pass; it sleeps once,
  for exactly \<open>slack\<close>, if \<open>slack > 0\<close>, and does not sleep otherwise; it ends
  with the deadline at the fresh clock reading of line 126 (157) if
  \<open>slack < - tick_interval\<close>, and at the advanced deadline otherwise. A pass calls
  \<^verbatim>\<open>midi_send_clock\<close> once in \<^verbatim>\<open>clock.py\<close> and at most once in
  \<^verbatim>\<open>debugAutomaticClock.py\<close>, however late it is.
\<close>

theorem lag_policy:
  assumes "0 \<le> send_clock_rc inp" and "0 < tick_interval st"
    and "slack = next_tick_time st + tick_interval st - now_slack inp"
  shows "continues (snd (send_tick inp st))
       \<and> sleeps (fst (send_tick inp st)) = (if 0 < slack then [slack] else [])
       \<and> next_tick_time (result_state (snd (send_tick inp st))) =
           (if slack < - tick_interval st then now_resync inp
            else next_tick_time st + tick_interval st)
       \<and> count_list (fst (send_tick inp st)) Midi_send_clock = 1
       \<and> count_list (fst (auto_loop_body inp ast)) Midi_send_clock \<le> 1"
proof -
  have "slack < - tick_interval st \<longleftrightarrow> slack \<le> 0 \<and> slack < - tick_interval st"
    using assms(2) by auto
  then show ?thesis
    using assms(1,3) auto_loop_body_one_clock [of inp ast]
    by (simp add: send_tick_sleeps send_tick_deadline send_tick_one_clock
        send_tick_continues)
qed

theorem lag_policy_witness:
  "0 \<le> send_clock_rc late_input \<and> 0 < tick_interval state_at_one
   \<and> next_tick_time state_at_one + tick_interval state_at_one - now_slack late_input
       = - (19 / 240)
   \<and> continues (snd (send_tick late_input state_at_one))
   \<and> sleeps (fst (send_tick late_input state_at_one)) = []
   \<and> next_tick_time (result_state (snd (send_tick late_input state_at_one))) = 111 / 100
   \<and> count_list (fst (send_tick late_input state_at_one)) Midi_send_clock = 1"
  using lag_policy [of late_input state_at_one _ state_before_change, OF _ _ refl]
  by (simp add: late_input_def state_at_one_def)

subsection \<open>The counters\<close>

text \<open>
  C7. Both loops, entered with both counters at zero, run on the answers \<open>ins\<close> of
  N passes. If in every pass the flag is set and the clock message is sent, the loop
  is still running after them and \<^verbatim>\<open>tick_count\<close> is N. Whatever the answers are
  (failures and cancellation included), in the state the loop has reached
  \<^verbatim>\<open>beat_count\<close> is \<^verbatim>\<open>tick_count\<close> divided by 24, rounded down, and the status
  lines printed so far are those of the beats 1, 2, ..., \<^verbatim>\<open>beat_count\<close>, the k-th
  with tick count 24 k. Within a pass, the status line (preceded by the call of
  \<^verbatim>\<open>midi_get_tick_count\<close>, whose result it shows) is printed exactly when the new
  tick count is a multiple of 24.
\<close>

theorem counters_follow_cycles:
  assumes "tick_count cst = 0" and "beat_count cst = 0"
    and "tick_count ast = 0" and "beat_count ast = 0"
    and "seq_index ast < length bpm_sequence"
    and "cst' = loop_state (snd (clock_main_loop ins cst))"
    and "ast' = loop_state (snd (auto_main_loop ins ast))"
  shows "(list_all (\<lambda>i. running_flag i \<and> 0 \<le> send_clock_rc i) ins \<longrightarrow>
            snd (clock_main_loop ins cst) = Still_running cst' \<and> tick_count cst' = length ins
          \<and> snd (auto_main_loop ins ast) = Still_running ast' \<and> tick_count ast' = length ins)
       \<and> beat_count cst' = tick_count cst' div PPQN
       \<and> beat_count ast' = tick_count ast' div PPQN
       \<and> map (\<lambda>(b, n, q). (b, n)) (beat_reports (fst (clock_main_loop ins cst))) =
           map (\<lambda>k. (k, k * PPQN)) [1 ..< beat_count cst' + 1]
       \<and> map (\<lambda>(b, n, q). (b, n)) (beat_reports (fst (auto_main_loop ins ast))) =
           map (\<lambda>k. (k, k * PPQN)) [1 ..< beat_count ast' + 1]
       \<and> fst (count_tick inp st) =
           (if (tick_count st + 1) mod PPQN = 0
            then [Midi_get_tick_count,
                  Print (Msg_beat (beat_count st + 1) (tick_count st + 1) (queue_tick inp))]
            else [])"
proof -
  have c: "beat_count cst = tick_count cst div PPQN" and a: "beat_count ast = tick_count ast div PPQN"
    using assms(1-4) by simp_all
  show ?thesis
    using clock_loop_good_run [of ins cst] auto_loop_good_run [OF assms(5), of ins]
      clock_loop_beat [OF c, of ins] auto_loop_beat [OF a, of ins]
      clock_loop_reports [OF c, of ins] auto_loop_reports [OF a, of ins]
      assms(1-4,6,7)
    by (simp add: count_tick_events)
qed

theorem counters_follow_cycles_witness:
  "tick_count clock_start_state = 0 \<and> beat_count clock_start_state = 0
   \<and> tick_count (auto_initial_state su_ok (1 / 48)) = 0
   \<and> beat_count (auto_initial_state su_ok (1 / 48)) = 0
   \<and> seq_index (auto_initial_state su_ok (1 / 48)) < length bpm_sequence
   \<and> list_all (\<lambda>i. running_flag i \<and> 0 \<le> send_clock_rc i) (replicate 24 (on_time_input 0))
   \<and> tick_count (loop_state (snd (clock_main_loop (replicate 24 (on_time_input 0)) clock_start_state)))
       = 24
   \<and> beat_count (loop_state (snd (clock_main_loop (replicate 24 (on_time_input 0)) clock_start_state)))
       = 1
   \<and> map (\<lambda>(b, n, q). (b, n))
        (beat_reports (fst (auto_main_loop (replicate 24 (on_time_input 0))
           (auto_initial_state su_ok (1 / 48))))) = [(1, 24)]"
proof -
  let ?ins = "replicate 24 (on_time_input 0)"
  let ?a0 = "auto_initial_state su_ok (1 / 48)"
  have h: "tick_count clock_start_state = 0" "beat_count clock_start_state = 0"
    "tick_count ?a0 = 0" "beat_count ?a0 = 0" "seq_index ?a0 < length bpm_sequence"
    by (simp_all add: clock_start_state_def auto_initial_state_def bpm_sequence_def)
  have good: "list_all (\<lambda>i. running_flag i \<and> 0 \<le> send_clock_rc i) ?ins"
    by (simp add: list_all_length on_time_input_def)
  note t = counters_follow_cycles [OF h refl refl, of ?ins]
  from t [THEN conjunct1] good
  have tc: "tick_count (loop_state (snd (clock_main_loop ?ins clock_start_state))) = 24"
    and ta: "tick_count (loop_state (snd (auto_main_loop ?ins ?a0))) = 24"
    by simp_all
  from t [THEN conjunct2, THEN conjunct1] tc
  have bc: "beat_count (loop_state (snd (clock_main_loop ?ins clock_start_state))) = 1"
    by (simp add: PPQN_def)
  from t [THEN conjunct2, THEN conjunct2, THEN conjunct1] ta
  have ba: "beat_count (loop_state (snd (auto_main_loop ?ins ?a0))) = 1"
    by (simp add: PPQN_def)
  from t [THEN conjunct2, THEN conjunct2, THEN conjunct2, THEN conjunct2, THEN conjunct1] ba
  have ra: "map (\<lambda>(b, n, q). (b, n)) (beat_reports (fst (auto_main_loop ?ins ?a0))) = [(1, 24)]"
    by (simp add: PPQN_def)
  from h good tc bc ra show ?thesis
    by blast
qed

subsection \<open>Shutdown\<close>

text \<open>
  C9. Both scripts, once the library is loaded and \<^verbatim>\<open>midi_init\<close> has succeeded.
  If some pass finds the shutdown flag cleared, or its \<^verbatim>\<open>midi_send_clock\<close> fails,
  \<^verbatim>\<open>main\<close> returns. Whenever
  \<^verbatim>\<open>main\<close> returns, by whichever way (cancellation, failure of
  \<^verbatim>\<open>midi_send_clock\<close>, an exception caught in the loop, failure of
  \<^verbatim>\<open>midi_send_start\<close>), it has called \<^verbatim>\<open>midi_cleanup\<close> exactly once, and
  \<^verbatim>\<open>midi_send_stop\<close> exactly once if \<^verbatim>\<open>midi_send_start\<close> had succeeded (not at
  all if it had failed).
\<close>

theorem shutdown_once:
  assumes "lib_exists su" and "lib_loads su" and "0 \<le> init_rc su"
  shows "(list_ex (\<lambda>i. \<not> running_flag i \<or> send_clock_rc i < 0) ins \<longrightarrow>
            clock_main su ins \<noteq> None \<and> auto_main su ins \<noteq> None)
       \<and> (clock_main su ins = Some (evs, out) \<or> auto_main su ins = Some (evs, out) \<longrightarrow>
            count_list evs Midi_cleanup = 1
            \<and> count_list evs Midi_send_stop = (if start_rc su < 0 then 0 else 1))"
proof (cases "start_rc su < 0")
  case True
  with assms main_start_failed [of su ins] show ?thesis
    by (auto simp add: startup_no_shutdown)
next
  case False
  then have ok: "0 \<le> start_rc su" by simp
  note c = clock_main_started [OF assms ok, of ins]
  note a = auto_main_started [OF assms ok, of ins]
  let ?c0 = "\<lparr>tick_interval = 1 / 48, next_tick_time = t_start su, tick_count = 0, beat_count = 0\<rparr>"
  have exits: "list_ex (\<lambda>i. \<not> running_flag i \<or> send_clock_rc i < 0) ins \<longrightarrow>
            clock_main su ins \<noteq> None \<and> auto_main su ins \<noteq> None"
  proof
    assume ex: "list_ex (\<lambda>i. \<not> running_flag i \<or> send_clock_rc i < 0) ins"
    from clock_loop_exits [OF ex, of ?c0] c have "clock_main su ins \<noteq> None"
      by (cases "snd (clock_main_loop ins ?c0)") simp_all
    moreover
    from auto_loop_exits [OF ex, of "auto_initial_state su (1 / 48)"] a
    have "auto_main su ins \<noteq> None"
      by (cases "snd (auto_main_loop ins (auto_initial_state su (1 / 48)))") simp_all
    ultimately show "clock_main su ins \<noteq> None \<and> auto_main su ins \<noteq> None" ..
  qed
  have cc: "count_list evs Midi_cleanup = 1 \<and> count_list evs Midi_send_stop = 1"
    if "clock_main su ins = Some (evs, out)"
    using that c clock_loop_no_shutdown [of Midi_cleanup ins ?c0]
      clock_loop_no_shutdown [of Midi_send_stop ins ?c0]
    by (cases "snd (clock_main_loop ins ?c0)") auto
  have ac: "count_list evs Midi_cleanup = 1 \<and> count_list evs Midi_send_stop = 1"
    if "auto_main su ins = Some (evs, out)"
    using that a auto_loop_no_shutdown [of Midi_cleanup ins "auto_initial_state su (1 / 48)"]
      auto_loop_no_shutdown [of Midi_send_stop ins "auto_initial_state su (1 / 48)"]
      startup_no_shutdown [of Midi_cleanup su] startup_no_shutdown [of Midi_send_stop su]
    by (cases "snd (auto_main_loop ins (auto_initial_state su (1 / 48)))") auto
  from exits cc ac False show ?thesis
    by auto
qed


theorem shutdown_once_witness:
  "lib_exists su_ok \<and> lib_loads su_ok \<and> 0 \<le> init_rc su_ok
   \<and> list_ex (\<lambda>i. \<not> running_flag i \<or> send_clock_rc i < 0)
        [on_time_input 0, cancel_input (1 / 48)]
   \<and> clock_main su_ok [on_time_input 0, cancel_input (1 / 48)] =
       Some ([Print Msg_banner, Print Msg_initializing, Midi_init, Midi_get_ids,
              Print (Msg_ids 128 0 0), Midi_send_start, Print (Msg_tick_interval (1 / 48)),
              Midi_send_clock, Sleep (1 / 48),
              Print Msg_stopping, Midi_send_stop, Sleep (1 / 10), Midi_cleanup,
              Print (Msg_totals 1 0), Print Msg_shutdown_complete], Return 0)
   \<and> count_list (fst (the (clock_main su_ok [on_time_input 0, cancel_input (1 / 48)])))
        Midi_cleanup = 1
   \<and> count_list (fst (the (clock_main su_ok [on_time_input 0, cancel_input (1 / 48)])))
        Midi_send_stop = 1"
proof -
  have h: "lib_exists su_ok" "lib_loads su_ok" "0 \<le> init_rc su_ok" "0 \<le> start_rc su_ok"
    by (simp_all add: su_ok_def)
  have ex: "list_ex (\<lambda>i. \<not> running_flag i \<or> send_clock_rc i < 0)
      [on_time_input 0, cancel_input (1 / 48)]"
    by (simp add: cancel_input_def on_time_input_def)
  have run: "clock_main su_ok [on_time_input 0, cancel_input (1 / 48)] =
       Some ([Print Msg_banner, Print Msg_initializing, Midi_init, Midi_get_ids,
              Print (Msg_ids 128 0 0), Midi_send_start, Print (Msg_tick_interval (1 / 48)),
              Midi_send_clock, Sleep (1 / 48),
              Print Msg_stopping, Midi_send_stop, Sleep (1 / 10), Midi_cleanup,
              Print (Msg_totals 1 0), Print Msg_shutdown_complete], Return 0)"
    by (subst clock_main_started [OF h])
      (simp add: clock_main_loop_Cons send_tick_ok count_tick_def
        wait_or_resync_def advance_deadline_def Let_def PPQN_def
        su_ok_def on_time_input_def cancel_input_def del: clock_main_loop.simps(2))
  from shutdown_once [OF h(1-3), of "[on_time_input 0, cancel_input (1 / 48)]"
      "fst (the (clock_main su_ok [on_time_input 0, cancel_input (1 / 48)]))" "Return 0"] run h
  have "count_list (fst (the (clock_main su_ok [on_time_input 0, cancel_input (1 / 48)])))
        Midi_cleanup = 1
    \<and> count_list (fst (the (clock_main su_ok [on_time_input 0, cancel_input (1 / 48)])))
        Midi_send_stop = 1"
    by simp
  with h ex run show ?thesis by blast
qed

text \<open>
  C1: what the scripts do when \<^verbatim>\<open>midi_send_clock\<close> fails in the second pass. The
  loop is left at once (no further clock message, no sleep), the shutdown runs (stop,
  0.1 s, cleanup), the totals printed are those at the failure (1 tick, 0 beats), and
  \<^verbatim>\<open>main\<close> returns 0: the \<^verbatim>\<open>break\<close> leads to the same \<^verbatim>\<open>return 0\<close> as a
  cancellation, while the failures of \<^verbatim>\<open>midi_init\<close> and \<^verbatim>\<open>midi_send_start\<close>
  return 1.
\<close>

theorem clock_failure_returns_zero:
  "clock_main su_ok [on_time_input 0, clock_fail_input (1 / 48)] =
     Some ([Print Msg_banner, Print Msg_initializing, Midi_init, Midi_get_ids,
            Print (Msg_ids 128 0 0), Midi_send_start, Print (Msg_tick_interval (1 / 48)),
            Midi_send_clock, Sleep (1 / 48),
            Midi_send_clock, Print Msg_clock_failed,
            Print Msg_stopping, Midi_send_stop, Sleep (1 / 10), Midi_cleanup,
            Print (Msg_totals 1 0), Print Msg_shutdown_complete], Return 0)
   \<and> auto_main su_ok [on_time_input 0, clock_fail_input (1 / 48)] =
     Some ([Print Msg_banner, Print Msg_initializing, Midi_init, Midi_set_tempo 120,
            Midi_get_ids, Print (Msg_ids 128 0 0), Midi_send_start,
            Print (Msg_tick_interval (1 / 48)),
            Midi_send_clock, Sleep (1 / 48),
            Midi_send_clock, Print Msg_clock_failed,
            Print Msg_stopping, Midi_send_stop, Sleep (1 / 10), Midi_cleanup,
            Print (Msg_totals 1 0), Print Msg_shutdown_complete], Return 0)"
proof -
  have h: "lib_exists su_ok" "lib_loads su_ok" "0 \<le> init_rc su_ok" "0 \<le> start_rc su_ok"
    by (simp_all add: su_ok_def)
  have c: "clock_main su_ok [on_time_input 0, clock_fail_input (1 / 48)] =
     Some ([Print Msg_banner, Print Msg_initializing, Midi_init, Midi_get_ids,
            Print (Msg_ids 128 0 0), Midi_send_start, Print (Msg_tick_interval (1 / 48)),
            Midi_send_clock, Sleep (1 / 48),
            Midi_send_clock, Print Msg_clock_failed,
            Print Msg_stopping, Midi_send_stop, Sleep (1 / 10), Midi_cleanup,
            Print (Msg_totals 1 0), Print Msg_shutdown_complete], Return 0)"
    by (subst clock_main_started [OF h])
      (simp add: clock_main_loop_Cons send_tick_ok count_tick_def
        wait_or_resync_def advance_deadline_def Let_def PPQN_def
        su_ok_def on_time_input_def clock_fail_input_def del: clock_main_loop.simps(2))
  have a: "auto_main su_ok [on_time_input 0, clock_fail_input (1 / 48)] =
     Some ([Print Msg_banner, Print Msg_initializing, Midi_init, Midi_set_tempo 120,
            Midi_get_ids, Print (Msg_ids 128 0 0), Midi_send_start,
            Print (Msg_tick_interval (1 / 48)),
            Midi_send_clock, Sleep (1 / 48),
            Midi_send_clock, Print Msg_clock_failed,
            Print Msg_stopping, Midi_send_stop, Sleep (1 / 10), Midi_cleanup,
            Print (Msg_totals 1 0), Print Msg_shutdown_complete], Return 0)"
    by (subst auto_main_started [OF h])
      (simp add: auto_startup_events_def auto_initial_state_def
        BPM_def auto_loop_body_def tempo_change_check_def send_tick_def
        sleep_until_next_tick_def count_tick_def
        wait_or_resync_def advance_deadline_def Let_def PPQN_def
        su_ok_def on_time_input_def clock_fail_input_def)
  from c a show ?thesis ..
qed

subsection \<open>Overdue schedule entries\<close>

text \<open>
  C10. In \<^verbatim>\<open>debugAutomaticClock.py\<close> a pass calls \<^verbatim>\<open>midi_set_tempo\<close> at most
  once. A pass that finds an entry due tries exactly the entry at the schedule index,
  moves the index on by one and puts the next change ten seconds after the time the
  entry was due, however late the pass is. Hence, when the passes \<open>ins\<close> all come
  after the loop has fallen behind by as many entries as there are passes, the overdue
  entries are tried in schedule order, one in each pass, and the next change time has
  moved by ten seconds per pass.
\<close>

theorem one_entry_per_pass:
  assumes "seq_index st < length bpm_sequence"
  shows "length (tempo_calls (fst (auto_loop_body inp st))) \<le> 1
       \<and> (next_change_time st \<le> now_check inp \<longrightarrow>
            tempo_calls (fst (auto_loop_body inp st)) = [bpm_sequence ! seq_index st]
            \<and> seq_index (result_state (snd (auto_loop_body inp st))) =
                (seq_index st + 1) mod length bpm_sequence
            \<and> next_change_time (result_state (snd (auto_loop_body inp st))) =
                next_change_time st + 10)
       \<and> (list_all (\<lambda>i. running_flag i \<and> 0 \<le> send_clock_rc i
              \<and> next_change_time st + 10 * of_nat (length ins) - 10 \<le> now_check i) ins \<longrightarrow>
            tempo_calls (fst (auto_main_loop ins st)) =
              map (\<lambda>j. bpm_sequence ! ((seq_index st + j) mod length bpm_sequence))
                [0..<length ins]
            \<and> next_change_time (loop_state (snd (auto_main_loop ins st))) =
                next_change_time st + 10 * of_nat (length ins))"
  using auto_loop_body_calls [of inp st] auto_loop_body_due [OF assms, of inp]
    overdue_entries [OF assms order_refl, of ins]
  by blast

theorem one_entry_per_pass_witness:
  "seq_index (auto_initial_state su_ok (1 / 48)) < length bpm_sequence
   \<and> next_change_time (auto_initial_state su_ok (1 / 48)) \<le> now_check (on_time_input 35)
   \<and> list_all (\<lambda>i. running_flag i \<and> 0 \<le> send_clock_rc i \<and> 30 \<le> now_check i)
        [on_time_input 35, on_time_input (35 + 1 / 32), on_time_input (35 + 1 / 32 + 1 / 56)]
   \<and> tempo_calls (fst (auto_loop_body (on_time_input 35) (auto_initial_state su_ok (1 / 48))))
       = [80]
   \<and> tempo_calls (fst (auto_main_loop
        [on_time_input 35, on_time_input (35 + 1 / 32), on_time_input (35 + 1 / 32 + 1 / 56)]
        (auto_initial_state su_ok (1 / 48)))) = [80, 140, 120]
   \<and> next_change_time (loop_state (snd (auto_main_loop
        [on_time_input 35, on_time_input (35 + 1 / 32), on_time_input (35 + 1 / 32 + 1 / 56)]
        (auto_initial_state su_ok (1 / 48))))) = 40"
proof -
  let ?s = "auto_initial_state su_ok (1 / 48)"
  let ?ins = "[on_time_input 35, on_time_input (35 + 1 / 32), on_time_input (35 + 1 / 32 + 1 / 56)]"
  have idx: "seq_index ?s < length bpm_sequence" and s0: "seq_index ?s = 0"
    and nct: "next_change_time ?s = 10"
    by (simp_all add: auto_initial_state_def bpm_sequence_def su_ok_def)
  have due: "next_change_time ?s \<le> now_check (on_time_input 35)"
    by (simp add: nct on_time_input_def)
  have late: "list_all (\<lambda>i. running_flag i \<and> 0 \<le> send_clock_rc i \<and> 30 \<le> now_check i) ?ins"
    by (simp add: on_time_input_def)
  then have late': "list_all (\<lambda>i. running_flag i \<and> 0 \<le> send_clock_rc i
      \<and> next_change_time ?s + 10 * of_nat (length ?ins) - 10 \<le> now_check i) ?ins"
    by (simp add: nct)
  note t = one_entry_per_pass [OF idx, of "on_time_input 35" ?ins]
  from t due have one: "tempo_calls (fst (auto_loop_body (on_time_input 35) ?s)) = [80]"
    by (simp add: s0 bpm_sequence_def)
  from t late' have "tempo_calls (fst (auto_main_loop ?ins ?s)) =
        map (\<lambda>j. bpm_sequence ! ((seq_index ?s + j) mod length bpm_sequence)) [0..<length ?ins]
      \<and> next_change_time (loop_state (snd (auto_main_loop ?ins ?s))) =
          next_change_time ?s + 10 * of_nat (length ?ins)"
    by blast
  then have run: "tempo_calls (fst (auto_main_loop ?ins ?s)) = [80, 140, 120]"
    "next_change_time (loop_state (snd (auto_main_loop ?ins ?s))) = 40"
    by (simp_all add: s0 nct bpm_sequence_def upt_rec del: auto_main_loop.simps)
  from idx due late one run show ?thesis by blast
qed

subsection \<open>The tempo follows the schedule\<close>

text \<open>
  C3, as stated, fails. \<open>on_time_run\<close> is the run of the claim: start at 0 s, no
  \<^verbatim>\<open>midi_set_tempo\<close> fails, no stall (every pass sleeps one whole tick interval, so
  each pass began on its deadline and took no time). The program calls
  \<^verbatim>\<open>midi_set_tempo\<close> with 80, 140 and 120, at 10 s, 20 s and 30 s, and in the pass at
  35 s the tempo is 120, not 140: the entry most recently due at 35 s is the third one.
\<close>

theorem tempo_at_35_is_120:
  "t_sched su_ok = 0 \<and> t_start su_ok = 0
   \<and> list_all (\<lambda>i. running_flag i \<and> 0 \<le> send_clock_rc i \<and> 0 \<le> set_tempo_rc i) on_time_run
   \<and> now_check (last on_time_run) = 35
   \<and> sleeps (fst (auto_main_loop on_time_run (auto_initial_state su_ok (1 / 48)))) =
       replicate 480 (1 / 48) @ replicate 320 (1 / 32) @ replicate 560 (1 / 56)
       @ replicate 241 (1 / 48)
   \<and> tempo_calls (fst (auto_main_loop on_time_run (auto_initial_state su_ok (1 / 48)))) =
       [80, 140, 120]
   \<and> current_bpm (loop_state (snd (auto_main_loop on_time_run (auto_initial_state su_ok (1 / 48)))))
       = 120
   \<and> current_bpm (loop_state (snd (auto_main_loop on_time_run (auto_initial_state su_ok (1 / 48)))))
       \<noteq> 140"
proof -
  have t0: "t_sched su_ok = 0" "t_start su_ok = 0"
    by (simp_all add: su_ok_def)
  from on_time_run_trace
  obtain st' where
    r: "snd (auto_main_loop on_time_run (auto_initial_state su_ok (1 / 48))) = Still_running st'"
    and sl: "sleeps (fst (auto_main_loop on_time_run (auto_initial_state su_ok (1 / 48)))) =
       replicate 480 (1 / 48) @ replicate 320 (1 / 32) @ replicate 560 (1 / 56)
       @ replicate 241 (1 / 48)"
    and tc: "tempo_calls (fst (auto_main_loop on_time_run (auto_initial_state su_ok (1 / 48)))) =
       [80, 140, 120]"
    and b: "current_bpm st' = 120"
    by blast
  have "current_bpm (loop_state (snd (auto_main_loop on_time_run
      (auto_initial_state su_ok (1 / 48))))) = 120"
    using r b by simp
  with t0 on_time_run_ok on_time_run_ends_at_35 sl tc show ?thesis
    by simp
qed

text \<open>
  C3, amended. In a run of \<^verbatim>\<open>debugAutomaticClock.py\<close> in which no pass is cancelled,
  no \<^verbatim>\<open>midi_send_clock\<close> and no \<^verbatim>\<open>midi_set_tempo\<close> fails and the tempo checks
  are less than ten seconds apart, the tempo after the tempo check of the last pass is
  the schedule entry most recently due at the time \<open>t\<close> of that check, counted from
  the start of the schedule (the initial tempo while \<open>t < 10\<close>). At \<open>t = 35\<close> it
  is 120.
\<close>

theorem tempo_is_entry_most_recently_due:
  assumes "list_all (\<lambda>i. running_flag i \<and> 0 \<le> send_clock_rc i \<and> 0 \<le> set_tempo_rc i) ins"
    and "checks_in_time (t_sched su) ins"
    and "t = last (t_sched su # map now_check ins) - t_sched su"
  shows "current_bpm (loop_state (snd (auto_main_loop ins (auto_initial_state su iv)))) =
           entry_most_recently_due t
       \<and> (t = 35 \<longrightarrow>
            current_bpm (loop_state (snd (auto_main_loop ins (auto_initial_state su iv)))) = 120)"
  using schedule_from_start [OF assms(1,2), of iv] assms(3) due_at_35 by simp

theorem tempo_is_entry_most_recently_due_witness:
  "list_all (\<lambda>i. running_flag i \<and> 0 \<le> send_clock_rc i \<and> 0 \<le> set_tempo_rc i) on_time_run
   \<and> checks_in_time (t_sched su_ok) on_time_run
   \<and> last (t_sched su_ok # map now_check on_time_run) - t_sched su_ok = 35
   \<and> entry_most_recently_due 35 = 120
   \<and> current_bpm (loop_state (snd (auto_main_loop on_time_run (auto_initial_state su_ok (1 / 48)))))
       = 120"
proof -
  have t0: "t_sched su_ok = 0" by (simp add: su_ok_def)
  have h: "checks_in_time (t_sched su_ok) on_time_run"
    by (simp add: t0 on_time_run_in_time)
  have l: "last (t_sched su_ok # map now_check on_time_run) - t_sched su_ok = 35"
    by (simp only: t0 on_time_run_last diff_zero)
  from tempo_is_entry_most_recently_due [OF on_time_run_ok h l [symmetric], of "1 / 48"]
  have "current_bpm (loop_state (snd (auto_main_loop on_time_run
      (auto_initial_state su_ok (1 / 48))))) = 120"
    by blast
  with on_time_run_ok h l due_at_35 show ?thesis by blast
qed

end
